theory Spec2Isabelle
  imports Main
begin

section \<open>Python strings\<close>

text \<open>
  Text is a list of 8-bit characters standing for ASCII code points. The character
  classes below are the ones Python's \<^verbatim>\<open>str\<close> methods and \<^verbatim>\<open>re\<close> module use on ASCII:
  whitespace is \<^verbatim>\<open>\t \n \v \f \r\<close>, the separators 0x1C to 0x1F and the blank.
  Text outside ASCII (for one, the en dash that two patterns of the minutes parser
  accept beside the hyphen) is outside the model.
\<close>

datatype py_error = ValueError | IndexError | TypeError | SaveError

definition is_space :: "char \<Rightarrow> bool" where
  "is_space ch = (ch \<in> set [CHR '' '', CHR 0x09, CHR 0x0A, CHR 0x0B, CHR 0x0C, CHR 0x0D,
                             CHR 0x1C, CHR 0x1D, CHR 0x1E, CHR 0x1F])"

definition is_digit :: "char \<Rightarrow> bool" where
  "is_digit ch = (ch \<in> set ''0123456789'')"

definition is_upper :: "char \<Rightarrow> bool" where
  "is_upper ch = (ch \<in> set ''ABCDEFGHIJKLMNOPQRSTUVWXYZ'')"

definition is_lower :: "char \<Rightarrow> bool" where
  "is_lower ch = (ch \<in> set ''abcdefghijklmnopqrstuvwxyz'')"

definition is_word :: "char \<Rightarrow> bool" where
  "is_word ch = (is_upper ch \<or> is_lower ch \<or> is_digit ch \<or> ch = CHR ''_'')"

definition to_lower :: "char \<Rightarrow> char" where
  "to_lower ch = (case map_of (zip ''ABCDEFGHIJKLMNOPQRSTUVWXYZ'' ''abcdefghijklmnopqrstuvwxyz'') ch of
                    Some d \<Rightarrow> d | None \<Rightarrow> ch)"

definition to_upper :: "char \<Rightarrow> char" where
  "to_upper ch = (case map_of (zip ''abcdefghijklmnopqrstuvwxyz'' ''ABCDEFGHIJKLMNOPQRSTUVWXYZ'') ch of
                    Some d \<Rightarrow> d | None \<Rightarrow> ch)"

definition py_lower :: "string \<Rightarrow> string" where
  "py_lower s = map to_lower s"

definition py_capitalize :: "string \<Rightarrow> string" where
  "py_capitalize s = (case s of [] \<Rightarrow> [] | x # xs \<Rightarrow> to_upper x # map to_lower xs)"

definition py_lstrip :: "string \<Rightarrow> string" where
  "py_lstrip s = dropWhile is_space s"

definition py_rstrip :: "string \<Rightarrow> string" where
  "py_rstrip s = rev (dropWhile is_space (rev s))"

definition py_strip :: "string \<Rightarrow> string" where
  "py_strip s = py_rstrip (py_lstrip s)"

definition py_rstrip_chars :: "string \<Rightarrow> string \<Rightarrow> string" where
  "py_rstrip_chars cs s = rev (dropWhile (\<lambda>ch. ch \<in> set cs) (rev s))"

definition py_strip_chars :: "string \<Rightarrow> string \<Rightarrow> string" where
  "py_strip_chars cs s = py_rstrip_chars cs (dropWhile (\<lambda>ch. ch \<in> set cs) s)"

definition py_startswith :: "string \<Rightarrow> string \<Rightarrow> bool" where
  "py_startswith s p = (take (length p) s = p)"

text \<open>\<^verbatim>\<open>sub in s\<close>: \<open>sub\<close> occurs in \<open>s\<close> as a contiguous run.\<close>

fun py_in :: "string \<Rightarrow> string \<Rightarrow> bool" where
  "py_in sub [] = (sub = [])"
| "py_in sub (x # xs) = (py_startswith (x # xs) sub \<or> py_in sub xs)"

text \<open>\<^verbatim>\<open>sep.join(parts)\<close>.\<close>

fun py_join :: "string \<Rightarrow> string list \<Rightarrow> string" where
  "py_join sep [] = []"
| "py_join sep [p] = p"
| "py_join sep (p # q # ps) = p @ sep @ py_join sep (q # ps)"

text \<open>\<^verbatim>\<open>s.split(ch)\<close> for a separator of one character: every occurrence splits, so
  the result has one part more than \<open>s\<close> has separators.\<close>

fun py_split :: "char \<Rightarrow> string \<Rightarrow> string list" where
  "py_split sep [] = [[]]"
| "py_split sep (x # xs) =
     (case py_split sep xs of
        [] \<Rightarrow> [[]]
      | p # ps \<Rightarrow> if x = sep then [] # p # ps else (x # p) # ps)"

text \<open>
  \<^verbatim>\<open>int(s)\<close> in base ten: surrounding whitespace is dropped, one sign may lead, and the
  digits may be grouped by single underscores; everything else raises ValueError. The
  whitespace \<^verbatim>\<open>int\<close> drops is the blank and \<^verbatim>\<open>\t \n \v \f \r\<close> only: the separators 0x1C to
  0x1F, which \<^verbatim>\<open>strip\<close> removes, make it raise. CPython also raises ValueError when the
  string has more digits than its limit for the conversion, which is 4300 unless the
  program changes it (this one does not); underscores, the sign and the whitespace do not
  count.
\<close>

definition int_max_str_digits :: nat where
  "int_max_str_digits = 4300"

definition is_int_space :: "char \<Rightarrow> bool" where
  "is_int_space ch = (ch \<in> set [CHR '' '', CHR 0x09, CHR 0x0A, CHR 0x0B, CHR 0x0C, CHR 0x0D])"

definition int_strip :: "string \<Rightarrow> string" where
  "int_strip s = rev (dropWhile is_int_space (rev (dropWhile is_int_space s)))"

definition digit_val :: "char \<Rightarrow> int" where
  "digit_val ch = int (of_char ch) - 48"

fun int_digits :: "int \<Rightarrow> string \<Rightarrow> int option" where
  "int_digits acc [] = Some acc"
| "int_digits acc [x] = (if is_digit x then Some (10 * acc + digit_val x) else None)"
| "int_digits acc (x # y # ys) =
     (if is_digit x then int_digits (10 * acc + digit_val x) (y # ys)
      else if x = CHR ''_'' \<and> is_digit y then int_digits (10 * acc + digit_val y) ys
      else None)"

definition py_int :: "string \<Rightarrow> py_error + int" where
  "py_int s =
     (let t = int_strip s;
          neg = (case t of [] \<Rightarrow> False | x # _ \<Rightarrow> x = CHR ''-'');
          d = (case t of [] \<Rightarrow> [] | x # xs \<Rightarrow> if x = CHR ''-'' \<or> x = CHR ''+'' then xs else t)
      in case d of
           [] \<Rightarrow> Inl ValueError
         | x # xs \<Rightarrow>
             if is_digit x
             then (case int_digits (digit_val x) xs of
                     None \<Rightarrow> Inl ValueError
                   | Some v \<Rightarrow>
                       if length (filter is_digit d) > int_max_str_digits then Inl ValueError
                       else Inr (if neg then - v else v))
             else Inl ValueError)"

text \<open>\<^verbatim>\<open>str(n)\<close> of an integer.\<close>

definition digit_char :: "nat \<Rightarrow> char" where
  "digit_char d = ''0123456789'' ! (d mod 10)"

fun str_nat :: "nat \<Rightarrow> string" where
  "str_nat n = (if n < 10 then [digit_char n] else str_nat (n div 10) @ [digit_char (n mod 10)])"

declare str_nat.simps [simp del]

definition py_str :: "int \<Rightarrow> string" where
  "py_str i = (if i < 0 then CHR ''-'' # str_nat (nat (- i)) else str_nat (nat i))"

section \<open>Regular expressions\<close>

text \<open>
  The patterns of the program are interpreted by a backtracking matcher with Python's
  priorities: a repetition is greedy and gives characters back one iteration at a time,
  an alternation tries its left branch first, and a group records the text it matched.
  \<open>rmatch n r s c\<close> lists every way \<open>r\<close> can match a prefix of \<open>s\<close>, best first, each as
  the text left over and the groups set; \<open>n\<close> is the length of the whole subject, so
  that \<^verbatim>\<open>^\<close> can tell the start. The first element of the list is the match Python reports.
  No repetition in the program's patterns has a body that can match the empty string.
\<close>

type_synonym caps = "nat \<rightharpoonup> string"

datatype rx =
    Chr "char \<Rightarrow> bool"
  | Eps
  | Bol
  | Eol
  | Seq rx rx
  | Alt rx rx
  | Rep rx nat "nat option"
  | Grp nat rx

primrec rrep :: "(string \<Rightarrow> caps \<Rightarrow> (string \<times> caps) list) \<Rightarrow> nat \<Rightarrow> nat \<Rightarrow> string \<Rightarrow> caps
                  \<Rightarrow> (string \<times> caps) list" where
  "rrep m lo 0 s c = (if lo = 0 then [(s, c)] else [])"
| "rrep m lo (Suc k) s c =
     concat (map (\<lambda>(s', c'). rrep m (lo - 1) k s' c') (m s c)) @ (if lo = 0 then [(s, c)] else [])"

primrec rmatch :: "nat \<Rightarrow> rx \<Rightarrow> string \<Rightarrow> caps \<Rightarrow> (string \<times> caps) list" where
  "rmatch n (Chr P) s c = (case s of [] \<Rightarrow> [] | x # xs \<Rightarrow> if P x then [(xs, c)] else [])"
| "rmatch n Eps s c = [(s, c)]"
| "rmatch n Bol s c = (if length s = n then [(s, c)] else [])"
| "rmatch n Eol s c = (if s = [] \<or> s = [CHR 0x0A] then [(s, c)] else [])"
| "rmatch n (Seq a b) s c = concat (map (\<lambda>(s', c'). rmatch n b s' c') (rmatch n a s c))"
| "rmatch n (Alt a b) s c = rmatch n a s c @ rmatch n b s c"
| "rmatch n (Rep a lo hi) s c =
     rrep (rmatch n a) lo (case hi of None \<Rightarrow> length s | Some h \<Rightarrow> h) s c"
| "rmatch n (Grp g a) s c =
     map (\<lambda>(s', c'). (s', c'(g \<mapsto> take (length s - length s') s))) (rmatch n a s c)"

text \<open>Pattern syntax: \<^verbatim>\<open>*\<close>, \<^verbatim>\<open>+\<close>, \<^verbatim>\<open>?\<close>, \<^verbatim>\<open>{k}\<close>, a sequence, a literal, and a literal
  under \<^verbatim>\<open>re.IGNORECASE\<close>.\<close>

definition rx_star :: "rx \<Rightarrow> rx" where
  "rx_star r = Rep r 0 None"

definition rx_plus :: "rx \<Rightarrow> rx" where
  "rx_plus r = Rep r 1 None"

definition rx_opt :: "rx \<Rightarrow> rx" where
  "rx_opt r = Rep r 0 (Some 1)"

definition rx_times :: "nat \<Rightarrow> rx \<Rightarrow> rx" where
  "rx_times k r = Rep r k (Some k)"

fun rx_seq :: "rx list \<Rightarrow> rx" where
  "rx_seq [] = Eps"
| "rx_seq [r] = r"
| "rx_seq (r # q # rs) = Seq r (rx_seq (q # rs))"

definition rx_lit :: "string \<Rightarrow> rx" where
  "rx_lit s = rx_seq (map (\<lambda>x. Chr (\<lambda>ch. ch = x)) s)"

definition rx_lit_i :: "string \<Rightarrow> rx" where
  "rx_lit_i s = rx_seq (map (\<lambda>x. Chr (\<lambda>ch. to_lower ch = to_lower x)) s)"

fun rx_alts :: "rx list \<Rightarrow> rx" where
  "rx_alts [] = Eps"
| "rx_alts [r] = r"
| "rx_alts (r # q # rs) = Alt r (rx_alts (q # rs))"

text \<open>The character classes \<^verbatim>\<open>\s\<close>, \<^verbatim>\<open>\d\<close> and \<^verbatim>\<open>.\<close> (any character but the newline).\<close>

definition ws :: rx where
  "ws = Chr is_space"

definition dg :: rx where
  "dg = Chr is_digit"

definition dot :: rx where
  "dot = Chr (\<lambda>ch. ch \<noteq> CHR 0x0A)"

text \<open>
  \<^verbatim>\<open>re.match\<close> tries the pattern at the start of the subject only, \<^verbatim>\<open>re.search\<close> at every
  position from the left. Both give the groups of the first match. A group that took
  no part in the match is unset; \<open>grp\<close> reads a group that stands outside every optional
  part of its pattern, and is therefore set whenever the pattern matched.
\<close>

definition re_match :: "rx \<Rightarrow> string \<Rightarrow> caps option" where
  "re_match p s = (case rmatch (length s) p s Map.empty of [] \<Rightarrow> None | (s', c) # _ \<Rightarrow> Some c)"

fun search_from :: "nat \<Rightarrow> rx \<Rightarrow> string \<Rightarrow> (string \<times> caps) option" where
  "search_from n p [] = (case rmatch n p [] Map.empty of [] \<Rightarrow> None | m # _ \<Rightarrow> Some m)"
| "search_from n p (x # xs) =
     (case rmatch n p (x # xs) Map.empty of [] \<Rightarrow> search_from n p xs | m # _ \<Rightarrow> Some m)"

definition re_search :: "rx \<Rightarrow> string \<Rightarrow> caps option" where
  "re_search p s = map_option snd (search_from (length s) p s)"

definition matches :: "rx \<Rightarrow> string \<Rightarrow> bool" where
  "matches p s = (re_match p s \<noteq> None)"

definition grp :: "caps \<Rightarrow> nat \<Rightarrow> string" where
  "grp c g = (case c g of None \<Rightarrow> [] | Some t \<Rightarrow> t)"

text \<open>
  \<^verbatim>\<open>re.sub(p, repl, s)\<close>: the matches are replaced from the left and do not overlap; an
  empty match is replaced too and the scan then moves one character on. \<open>repl\<close> builds
  the replacement from the groups (for the template \<^verbatim>\<open>\1. \<close>).
\<close>

function sub_from :: "nat \<Rightarrow> rx \<Rightarrow> (caps \<Rightarrow> string) \<Rightarrow> string \<Rightarrow> string" where
  "sub_from n p repl [] = (case rmatch n p [] Map.empty of [] \<Rightarrow> [] | (s', c) # _ \<Rightarrow> repl c)"
| "sub_from n p repl (x # xs) =
     (case rmatch n p (x # xs) Map.empty of
        [] \<Rightarrow> x # sub_from n p repl xs
      | (s', c) # _ \<Rightarrow>
          if length s' < length (x # xs) then repl c @ sub_from n p repl s'
          else repl c @ x # sub_from n p repl xs)"
  by pat_completeness auto
termination
  by (relation "measure (\<lambda>(n, p, repl, s). length s)") auto

definition re_sub :: "rx \<Rightarrow> (caps \<Rightarrow> string) \<Rightarrow> string \<Rightarrow> string" where
  "re_sub p repl s = sub_from (length s) p repl s"

text \<open>\<^verbatim>\<open>re.finditer\<close>: the groups of every match, from the left, without overlap.\<close>

function finditer_from :: "nat \<Rightarrow> rx \<Rightarrow> string \<Rightarrow> caps list" where
  "finditer_from n p [] = (case rmatch n p [] Map.empty of [] \<Rightarrow> [] | (s', c) # _ \<Rightarrow> [c])"
| "finditer_from n p (x # xs) =
     (case rmatch n p (x # xs) Map.empty of
        [] \<Rightarrow> finditer_from n p xs
      | (s', c) # _ \<Rightarrow>
          if length s' < length (x # xs) then c # finditer_from n p s'
          else c # finditer_from n p xs)"
  by pat_completeness auto
termination
  by (relation "measure (\<lambda>(n, p, s). length s)") auto

definition re_finditer :: "rx \<Rightarrow> string \<Rightarrow> caps list" where
  "re_finditer p s = finditer_from (length s) p s"

section \<open>The agenda parser (parse_agenda.py)\<close>

subsection \<open>Section categories\<close>

text \<open>\<open>classify_section\<close> takes the section number as the source does, and never reads it.\<close>

definition classify_section :: "int \<Rightarrow> string \<Rightarrow> string" where
  "classify_section number title =
     (let title_lower = py_strip (py_lower title) in
      if py_in ''first reading'' title_lower then ''ordinance_first_reading''
      else if py_in ''second reading'' title_lower \<or> py_in ''hearing'' title_lower
        then ''ordinance_second_reading''
      else if py_in ''claims'' title_lower then ''claims''
      else if py_in ''resolution'' title_lower then ''resolutions''
      else if py_in ''public request'' title_lower then ''public_hearing''
      else if py_in ''petition'' title_lower \<or> py_in ''communication'' title_lower
        then ''petitions_communications''
      else if py_in ''officers'' title_lower then ''officers_communications''
      else if py_in ''reports'' title_lower \<or> py_in ''directors'' title_lower
        then ''reports_of_directors''
      else if py_in ''regular meeting'' title_lower then ''regular_meeting''
      else if py_in ''reception'' title_lower then ''reception_bid''
      else if py_in ''deferred'' title_lower \<or> py_in ''tabled'' title_lower then ''deferred''
      else if py_in ''adjournment'' title_lower then ''adjournment''
      else ''other'')"

definition item_type_from_section :: "string \<Rightarrow> string" where
  "item_type_from_section section_type =
     (if py_in ''ordinance'' section_type then ''ordinance''
      else if py_in ''resolution'' section_type then ''resolution''
      else if py_in ''claims'' section_type then ''claims''
      else ''other'')"

subsection \<open>The line patterns\<close>

text \<open>A dotted item number \<^verbatim>\<open>\d{1,2}\.\d{1,2}\<close> and a page range
  \<^verbatim>\<open>(\d{1,3})\s*-\s*(\d{1,3})\<close> (groups 1 and 2) are parts of several patterns.\<close>

definition item_no :: rx where
  "item_no = rx_seq [Rep dg 1 (Some 2), rx_lit ''.'', Rep dg 1 (Some 2)]"

definition page_range :: rx where
  "page_range = rx_seq [Grp 1 (Rep dg 1 (Some 3)), rx_star ws, rx_lit ''-'', rx_star ws,
                        Grp 2 (Rep dg 1 (Some 3))]"

text \<open>\<^verbatim>\<open>^\s*(\d{1,2})\.\s+([A-Z][A-Z\s\-\(\),&]+)\<close>\<close>

definition section_re :: rx where
  "section_re = rx_seq [Bol, rx_star ws, Grp 1 (Rep dg 1 (Some 2)), rx_lit ''.'', rx_plus ws,
     Grp 2 (Seq (Chr is_upper) (rx_plus (Chr (\<lambda>ch. is_upper ch \<or> is_space ch \<or> ch \<in> set ''-(),&''))))]"

text \<open>\<^verbatim>\<open>^\s*(\d{1,3})\s*-\s*(\d{1,3})\s+(\d{1,2}\.\d{1,2})\s+(.+)\<close>\<close>

definition pattern_a :: rx where
  "pattern_a = rx_seq [Bol, rx_star ws, page_range, rx_plus ws, Grp 3 item_no, rx_plus ws,
                       Grp 4 (rx_plus dot)]"

text \<open>\<^verbatim>\<open>^\s*(\d{1,3})\s*-\s*(\d{1,3})\s+(\d{1,2}\.\d{1,2})\s*$\<close>\<close>

definition pattern_b_range_item :: rx where
  "pattern_b_range_item = rx_seq [Bol, rx_star ws, page_range, rx_plus ws, Grp 3 item_no,
                                  rx_star ws, Eol]"

text \<open>\<^verbatim>\<open>^\s*(\d{1,3})\s*-\s*(\d{1,3})\s*$\<close>\<close>

definition pattern_c_range :: rx where
  "pattern_c_range = rx_seq [Bol, rx_star ws, page_range, rx_star ws, Eol]"

text \<open>\<^verbatim>\<open>^\s*(\d{1,2}\.\d{1,2})\s*$\<close>\<close>

definition item_number_alone :: rx where
  "item_number_alone = rx_seq [Bol, rx_star ws, Grp 1 item_no, rx_star ws, Eol]"

text \<open>\<^verbatim>\<open>^\s*(\d{1,2}\.\d{1,2})\s+(.+)\<close>\<close>

definition item_with_title :: rx where
  "item_with_title = rx_seq [Bol, rx_star ws, Grp 1 item_no, rx_plus ws, Grp 2 (rx_plus dot)]"

text \<open>\<^verbatim>\<open>((?:Ord|Res)\.\s*\d{2}-\d{3})\<close>\<close>

definition file_number_re :: rx where
  "file_number_re = Grp 1 (rx_seq [Alt (rx_lit ''Ord'') (rx_lit ''Res''), rx_lit ''.'', rx_star ws,
                                   rx_times 2 dg, rx_lit ''-'', rx_times 3 dg])"

text \<open>\<^verbatim>\<open>re.sub(r'(Ord|Res)\.\s*', r'\1. ', file_number)\<close>\<close>

definition normalize_file_number :: "string \<Rightarrow> string" where
  "normalize_file_number f =
     re_sub (rx_seq [Grp 1 (Alt (rx_lit ''Ord'') (rx_lit ''Res'')), rx_lit ''.'', rx_star ws])
            (\<lambda>c. grp c 1 @ ''. '') f"

text \<open>\<^verbatim>\<open>re.sub(r'\s+', ' ', s)\<close>\<close>

definition collapse_ws :: "string \<Rightarrow> string" where
  "collapse_ws s = re_sub (rx_plus ws) (\<lambda>c. '' '') s"

text \<open>\<^verbatim>\<open>re.sub(r'\s*(?:Ord|Res)\.\s*\d{2}-\d{3}\s*-?\s*Pdf\s*$', '', title)\<close>\<close>

definition strip_pdf_suffix :: "string \<Rightarrow> string" where
  "strip_pdf_suffix s =
     re_sub (rx_seq [rx_star ws, Alt (rx_lit ''Ord'') (rx_lit ''Res''), rx_lit ''.'', rx_star ws,
                     rx_times 2 dg, rx_lit ''-'', rx_times 3 dg, rx_star ws, rx_opt (rx_lit ''-''),
                     rx_star ws, rx_lit ''Pdf'', rx_star ws, Eol])
            (\<lambda>c. []) s"

subsection \<open>Records\<close>

record agenda_item =
  item_number :: string
  title :: string
  page_start :: "int option"
  page_end :: "int option"
  file_number :: "string option"
  item_type :: string

record agenda_section =
  sec_number :: int
  sec_title :: string
  sec_type :: string
  sec_items :: "agenda_item list"

subsection \<open>Reconstructing one item\<close>

text \<open>
  The cursor \<open>i\<close> of the source is the list of the lines from \<open>i\<close> on. \<open>prefix_ok\<close> is the
  test \<^verbatim>\<open>candidate.startswith(f"{sec_num}.")\<close>.
\<close>

definition prefix_ok :: "int \<Rightarrow> string \<Rightarrow> bool" where
  "prefix_ok sec_num candidate = py_startswith candidate (py_str sec_num @ ''.'')"

text \<open>
  The loop that gathers the continuation lines of a title, as written after a header
  with a page range: blank lines are passed over; a section header, a line with a page
  range, a line that starts with a file number and an item number of the open section
  end the title. The result is the title parts and the lines left.
\<close>

fun gather_title :: "int \<Rightarrow> string list \<Rightarrow> string list \<Rightarrow> string list \<times> string list" where
  "gather_title sec_num title_parts [] = (title_parts, [])"
| "gather_title sec_num title_parts (l # ls) =
     (let nline = py_strip l in
      if nline = [] then gather_title sec_num title_parts ls
      else if matches section_re l then (title_parts, l # ls)
      else if matches pattern_a l \<or> matches pattern_b_range_item l \<or> matches pattern_c_range l
        then (title_parts, l # ls)
      else if matches file_number_re nline then (title_parts, l # ls)
      else if (matches item_number_alone l \<or> matches item_with_title l) \<and>
              (case (case re_match item_with_title l of
                       Some c \<Rightarrow> Some c
                     | None \<Rightarrow> re_match item_number_alone l) of
                 Some test_m \<Rightarrow> prefix_ok sec_num (grp test_m 1)
               | None \<Rightarrow> False)
        then (title_parts, l # ls)
      else gather_title sec_num (title_parts @ [nline]) ls)"

text \<open>The same loop as written after a header without a page range: the two item
  patterns are tested one after the other.\<close>

fun gather_title_plain :: "int \<Rightarrow> string list \<Rightarrow> string list \<Rightarrow> string list \<times> string list" where
  "gather_title_plain sec_num title_parts [] = (title_parts, [])"
| "gather_title_plain sec_num title_parts (l # ls) =
     (let nline = py_strip l in
      if nline = [] then gather_title_plain sec_num title_parts ls
      else if matches section_re l then (title_parts, l # ls)
      else if matches pattern_a l \<or> matches pattern_b_range_item l \<or> matches pattern_c_range l
        then (title_parts, l # ls)
      else if matches file_number_re nline then (title_parts, l # ls)
      else if (case re_match item_number_alone l of
                 Some test_m \<Rightarrow> prefix_ok sec_num (grp test_m 1) | None \<Rightarrow> False)
        then (title_parts, l # ls)
      else if (case re_match item_with_title l of
                 Some test_m \<Rightarrow> prefix_ok sec_num (grp test_m 1) | None \<Rightarrow> False)
        then (title_parts, l # ls)
      else gather_title_plain sec_num (title_parts @ [nline]) ls)"

text \<open>The file number is looked for in the next lines, at most \<open>k\<close> of them
  (\<^verbatim>\<open>range(i, min(i + 3, len(lines)))\<close>); when one is found the cursor moves past its line.\<close>

fun find_file_number :: "nat \<Rightarrow> string list \<Rightarrow> (string \<times> string list) option" where
  "find_file_number 0 ls = None"
| "find_file_number (Suc k) [] = None"
| "find_file_number (Suc k) (l # ls) =
     (case re_search file_number_re l of
        Some fm \<Rightarrow> Some (normalize_file_number (grp fm 1), ls)
      | None \<Rightarrow> find_file_number k ls)"

text \<open>An item with a page range, once its header is read: \<open>after\<close> are the lines behind
  the header and \<open>seed\<close> the title text of the header line, if any.\<close>

definition ranged_item :: "int \<Rightarrow> string \<Rightarrow> string \<Rightarrow> int \<Rightarrow> int \<Rightarrow> string list \<Rightarrow> string list
                             \<Rightarrow> string list \<times> agenda_item" where
  "ranged_item sec_num itype item_num pstart pend seed after =
     (let (title_parts, r1) = gather_title sec_num seed after;
          t = collapse_ws (py_strip (strip_pdf_suffix (py_join '' '' title_parts)));
          (fnum, r2) = (case find_file_number 3 r1 of
                          Some (f, r) \<Rightarrow> (Some f, r)
                        | None \<Rightarrow> (None, r1))
      in (r2, \<lparr>item_number = item_num, title = t, page_start = Some pstart, page_end = Some pend,
               file_number = fnum, item_type = itype\<rparr>))"

text \<open>An item without a page range.\<close>

definition plain_item :: "int \<Rightarrow> string \<Rightarrow> string \<Rightarrow> string list \<Rightarrow> string list
                            \<Rightarrow> string list \<times> agenda_item" where
  "plain_item sec_num itype item_num seed after =
     (let (title_parts, r1) = gather_title_plain sec_num seed after;
          t = py_strip (collapse_ws (py_join '' '' title_parts))
      in (r1, \<lparr>item_number = item_num, title = t, page_start = None, page_end = None,
               file_number = None, item_type = itype\<rparr>))"

text \<open>The two integers of a page range.\<close>

definition range_ints :: "caps \<Rightarrow> py_error + int \<times> int" where
  "range_ints c =
     (case py_int (grp c 1) of
        Inl e \<Rightarrow> Inl e
      | Inr a \<Rightarrow> (case py_int (grp c 2) of Inl e \<Rightarrow> Inl e | Inr b \<Rightarrow> Inr (a, b)))"

text \<open>A pattern matched, and its item number (group \<open>g\<close>) belongs to the open section.\<close>

definition accepted :: "rx \<Rightarrow> nat \<Rightarrow> int \<Rightarrow> string \<Rightarrow> caps option" where
  "accepted p g sec_num l =
     (case re_match p l of
        None \<Rightarrow> None
      | Some c \<Rightarrow> if prefix_ok sec_num (grp c g) then Some c else None)"

text \<open>
  The items without page ranges, and the last \<^verbatim>\<open>i += 1\<close> of the loop body: \<open>l\<close> is the
  line the iteration looks at and \<open>after\<close> the lines behind the cursor.
\<close>

definition plain_step :: "int \<Rightarrow> string \<Rightarrow> string \<Rightarrow> string list \<Rightarrow> string list \<times> agenda_item option" where
  "plain_step sec_num itype l after =
     (case accepted item_number_alone 1 sec_num l of
        Some mi \<Rightarrow> map_prod id Some (plain_item sec_num itype (grp mi 1) [] after)
      | None \<Rightarrow>
          (case accepted item_with_title 1 sec_num l of
             Some mi2 \<Rightarrow>
               map_prod id Some (plain_item sec_num itype (grp mi2 1) [py_strip (grp mi2 2)] after)
           | None \<Rightarrow> (after, None)))"

text \<open>
  Pattern C: a page range alone on its line. The integers are read first; then the blank
  lines are passed over and the next line must carry an item number of the open section.
  If it does not, the iteration goes on to the tests for items without page ranges with
  the cursor where the search left it, still looking at the line of the range.
\<close>

definition range_step :: "int \<Rightarrow> string \<Rightarrow> caps \<Rightarrow> string \<Rightarrow> string list
                            \<Rightarrow> py_error + string list \<times> agenda_item option" where
  "range_step sec_num itype mc l after =
     (case range_ints mc of
        Inl e \<Rightarrow> Inl e
      | Inr (pstart, pend) \<Rightarrow>
          (case dropWhile (\<lambda>x. py_strip x = []) after of
             [] \<Rightarrow> Inr ([], None)
           | l2 # after2 \<Rightarrow>
               (case accepted item_number_alone 1 sec_num l2 of
                  Some mi \<Rightarrow>
                    Inr (map_prod id Some (ranged_item sec_num itype (grp mi 1) pstart pend [] after2))
                | None \<Rightarrow>
                    (case accepted item_with_title 1 sec_num l2 of
                       Some mi2 \<Rightarrow>
                         Inr (map_prod id Some
                               (ranged_item sec_num itype (grp mi2 1) pstart pend
                                  [py_strip (grp mi2 2)] after2))
                     | None \<Rightarrow> Inr (plain_step sec_num itype l after2)))))"

text \<open>One iteration of the loop inside an open section: the lines left and the item
  read, if any.\<close>

definition item_step :: "int \<Rightarrow> string \<Rightarrow> string \<Rightarrow> string list
                           \<Rightarrow> py_error + string list \<times> agenda_item option" where
  "item_step sec_num itype l after =
     (case accepted pattern_a 3 sec_num l of
        Some ma \<Rightarrow>
          (case range_ints ma of
             Inl e \<Rightarrow> Inl e
           | Inr (pstart, pend) \<Rightarrow>
               Inr (map_prod id Some
                     (ranged_item sec_num itype (grp ma 3) pstart pend [py_strip (grp ma 4)] after)))
      | None \<Rightarrow>
          (case accepted pattern_b_range_item 3 sec_num l of
             Some mb \<Rightarrow>
               (case range_ints mb of
                  Inl e \<Rightarrow> Inl e
                | Inr (pstart, pend) \<Rightarrow>
                    Inr (map_prod id Some
                          (ranged_item sec_num itype (grp mb 3) pstart pend [] after)))
           | None \<Rightarrow>
               (case re_match pattern_c_range l of
                  Some mc \<Rightarrow> range_step sec_num itype mc l after
                | None \<Rightarrow> Inr (plain_step sec_num itype l after))))"

subsection \<open>The scan\<close>

text \<open>
  The state of the scan: the sections closed so far and the open one. A section header
  closes the open section and opens the next; before the first header every line is
  passed over.
\<close>

definition close_section :: "agenda_section list \<Rightarrow> agenda_section option \<Rightarrow> agenda_section list" where
  "close_section sections current_section =
     (case current_section of None \<Rightarrow> sections | Some cs \<Rightarrow> sections @ [cs])"

definition agenda_step :: "string \<Rightarrow> string list \<Rightarrow> agenda_section list \<Rightarrow> agenda_section option
     \<Rightarrow> py_error + string list \<times> agenda_section list \<times> agenda_section option" where
  "agenda_step l after sections current_section =
     (case re_match section_re l of
        Some sm \<Rightarrow>
          (case py_int (grp sm 1) of
             Inl e \<Rightarrow> Inl e
           | Inr sec_num \<Rightarrow>
               (let t = py_rstrip_chars '' -,'' (collapse_ws (py_strip (grp sm 2)))
                in Inr (after, close_section sections current_section,
                        Some \<lparr>sec_number = sec_num, sec_title = t,
                              sec_type = classify_section sec_num t, sec_items = []\<rparr>)))
      | None \<Rightarrow>
          (case current_section of
             None \<Rightarrow> Inr (after, sections, None)
           | Some cs \<Rightarrow>
               (case item_step (sec_number cs) (item_type_from_section (sec_type cs)) l after of
                  Inl e \<Rightarrow> Inl e
                | Inr (r, None) \<Rightarrow> Inr (r, sections, Some cs)
                | Inr (r, Some it) \<Rightarrow>
                    Inr (r, sections, Some (cs\<lparr>sec_items := sec_items cs @ [it]\<rparr>)))))"

text \<open>
  The loop \<^verbatim>\<open>while i < len(lines)\<close>. It carries fuel, one unit for each iteration; that
  the number of lines is fuel enough is a theorem below. \<open>None\<close> is fuel run out, \<open>Inl\<close>
  an exception.
\<close>

fun agenda_loop :: "nat \<Rightarrow> string list \<Rightarrow> agenda_section list \<Rightarrow> agenda_section option
                      \<Rightarrow> (py_error + agenda_section list) option" where
  "agenda_loop fuel [] sections current_section = Some (Inr (close_section sections current_section))"
| "agenda_loop 0 (l # after) sections current_section = None"
| "agenda_loop (Suc fuel) (l # after) sections current_section =
     (case agenda_step l after sections current_section of
        Inl e \<Rightarrow> Some (Inl e)
      | Inr (r, sections', current') \<Rightarrow> agenda_loop fuel r sections' current')"

definition parse_agenda :: "string list \<Rightarrow> (py_error + agenda_section list) option" where
  "parse_agenda lines = agenda_loop (length lines) lines [] None"

section \<open>The minutes parser (parse_minutes.py)\<close>

subsection \<open>Vote tallies and breakdowns\<close>

definition DEFAULT_MEMBERS :: "string list" where
  "DEFAULT_MEMBERS = [''Ridley'', ''Lavarro'', ''Griffin'', ''Singh'', ''Brooks'', ''Zuppa'',
                      ''Ephros'', ''Little'', ''Gilmore'']"

text \<open>\<open>parse_vote_tally\<close>: the parts between the hyphens, the first three read as integers
  and a missing one taken as 0. \<^verbatim>\<open>int\<close> raises on a part that is not a number.\<close>

definition tally_part :: "string list \<Rightarrow> nat \<Rightarrow> py_error + int" where
  "tally_part parts k = (if length parts > k then py_int (parts ! k) else Inr 0)"

definition parse_vote_tally :: "string \<Rightarrow> py_error + int \<times> int \<times> int" where
  "parse_vote_tally tally_str =
     (let parts = py_split CHR ''-'' (py_strip tally_str) in
      case tally_part parts 0 of
        Inl e \<Rightarrow> Inl e
      | Inr ayes \<Rightarrow>
          (case tally_part parts 1 of
             Inl e \<Rightarrow> Inl e
           | Inr nays \<Rightarrow>
               (case tally_part parts 2 of
                  Inl e \<Rightarrow> Inl e
                | Inr abstentions \<Rightarrow> Inr (ayes, nays, abstentions))))"

text \<open>\<^verbatim>\<open>(?:Councilperson|Council\s+president\s+pro\s+temp)\s+([A-Z][a-z]+)\<close> under
  \<^verbatim>\<open>re.IGNORECASE\<close>, where both letter classes take a letter of either case.\<close>

definition is_alpha :: "char \<Rightarrow> bool" where
  "is_alpha ch = (is_upper ch \<or> is_lower ch)"

definition named_member_re :: rx where
  "named_member_re =
     rx_seq [Alt (rx_lit_i ''Councilperson'')
                 (rx_seq [rx_lit_i ''Council'', rx_plus ws, rx_lit_i ''president'', rx_plus ws,
                          rx_lit_i ''pro'', rx_plus ws, rx_lit_i ''temp'']),
             rx_plus ws, Grp 1 (Seq (Chr is_alpha) (rx_plus (Chr is_alpha)))]"

text \<open>The roster member a captured name stands for: the first whose name is the same
  up to case, and the captured name itself if there is none.\<close>

fun roster_name :: "string list \<Rightarrow> string \<Rightarrow> string" where
  "roster_name [] name = name"
| "roster_name (member # roster) name =
     (if py_lower member = py_lower name then member else roster_name roster name)"

definition extract_named_members :: "string \<Rightarrow> string list \<Rightarrow> string list" where
  "extract_named_members txt roster =
     map (\<lambda>m. roster_name roster (grp m 1)) (re_finditer named_member_re txt)"

record vote_breakdown =
  aye :: "string list"
  nay :: "string list"
  abstain :: "string list"
  absent :: "string list"

text \<open>The slices \<^verbatim>\<open>xs[:k]\<close> and \<^verbatim>\<open>xs[k:]\<close>; a negative \<open>k\<close> counts from the end.\<close>

definition slice_to :: "int \<Rightarrow> 'a list \<Rightarrow> 'a list" where
  "slice_to k xs = (if k < 0 then take (nat (int (length xs) + k)) xs else take (nat k) xs)"

definition slice_from :: "int \<Rightarrow> 'a list \<Rightarrow> 'a list" where
  "slice_from k xs = (if k < 0 then drop (nat (int (length xs) + k)) xs else drop (nat k) xs)"

text \<open>The members named in the detail text are the nay voters if the text has the
  word nay, else the abstainers if it has the word abstain; without a detail text, and
  without either word, nobody is named.\<close>

definition named_nay :: "string \<Rightarrow> string list \<Rightarrow> string list" where
  "named_nay detail_text roster =
     (if detail_text \<noteq> [] \<and> py_in ''nay'' (py_lower detail_text)
      then extract_named_members detail_text roster else [])"

definition named_abstain :: "string \<Rightarrow> string list \<Rightarrow> string list" where
  "named_abstain detail_text roster =
     (if detail_text \<noteq> [] \<and> \<not> py_in ''nay'' (py_lower detail_text)
         \<and> py_in ''abstain'' (py_lower detail_text)
      then extract_named_members detail_text roster else [])"

definition build_vote_breakdown :: "string \<Rightarrow> string \<Rightarrow> string \<Rightarrow> string list
                                     \<Rightarrow> py_error + vote_breakdown" where
  "build_vote_breakdown result tally_str detail_text roster =
     (case parse_vote_tally tally_str of
        Inl e \<Rightarrow> Inl e
      | Inr (ayes_count, nays_count, abstain_count) \<Rightarrow>
          (let accounted = set (named_nay detail_text roster) \<union> set (named_abstain detail_text roster);
               total_present = ayes_count + nays_count + abstain_count;
               total_roster = int (length roster);
               absent_count = total_roster - total_present;
               remaining = filter (\<lambda>m. m \<notin> accounted) roster
           in if absent_count > 0 \<and> int (length remaining) > ayes_count
              then Inr \<lparr>aye = slice_to ayes_count remaining, nay = named_nay detail_text roster,
                        abstain = named_abstain detail_text roster,
                        absent = slice_from ayes_count remaining\<rparr>
              else Inr \<lparr>aye = remaining, nay = named_nay detail_text roster,
                        abstain = named_abstain detail_text roster, absent = []\<rparr>))"

subsection \<open>The line patterns\<close>

text \<open>The section header is \<open>section_re\<close>, the pattern of the agenda parser, written out
  again in this file. A section number alone on its line: \<^verbatim>\<open>^\s*(\d{1,2})\.\s*$\<close>\<close>

definition section_number_alone :: rx where
  "section_number_alone = rx_seq [Bol, rx_star ws, Grp 1 (Rep dg 1 (Some 2)), rx_lit ''.'',
                                  rx_star ws, Eol]"

text \<open>\<^verbatim>\<open>^[A-Z][A-Z\s\-\(\),&]+\<close>\<close>

definition section_title_re :: rx where
  "section_title_re = rx_seq [Bol, Chr is_upper,
     rx_plus (Chr (\<lambda>ch. is_upper ch \<or> is_space ch \<or> ch \<in> set ''-(),&''))]"

text \<open>\<^verbatim>\<open>^\s*(\d{1,2}\.\d{1,2})\s\<close>\<close>

definition item_re :: rx where
  "item_re = rx_seq [Bol, rx_star ws, Grp 1 item_no, ws]"

text \<open>A tally \<^verbatim>\<open>\d+-\d+(?:-\d+)?\<close>, and the class \<^verbatim>\<open>[-\<dots>]\<close> of the hyphen and the en dash,
  of which the hyphen is the ASCII member.\<close>

definition tally_rx :: rx where
  "tally_rx = rx_seq [rx_plus dg, rx_lit ''-'', rx_plus dg, rx_opt (Seq (rx_lit ''-'') (rx_plus dg))]"

definition dash :: rx where
  "dash = Chr (\<lambda>ch. ch = CHR ''-'')"

text \<open>\<^verbatim>\<open>^\s*(Introduced|Approved|Withdrawn|Defeated|Tabled|Postponed)\<close>
  \<^verbatim>\<open>(?:\s*[-\<dots>]?\s*(\d+-\d+(?:-\d+)?))?(?:\s{2,}(.+))?\<close> under \<^verbatim>\<open>re.IGNORECASE\<close>\<close>

definition vote_re :: rx where
  "vote_re =
     rx_seq [Bol, rx_star ws,
             Grp 1 (rx_alts [rx_lit_i ''Introduced'', rx_lit_i ''Approved'', rx_lit_i ''Withdrawn'',
                             rx_lit_i ''Defeated'', rx_lit_i ''Tabled'', rx_lit_i ''Postponed'']),
             rx_opt (rx_seq [rx_star ws, rx_opt dash, rx_star ws, Grp 2 tally_rx]),
             rx_opt (rx_seq [Rep ws 2 None, Grp 3 (rx_plus dot)])]"

text \<open>\<^verbatim>\<open>^(?:Councilperson|Council\s+president|and\s+Councilperson)\<close> under \<^verbatim>\<open>re.IGNORECASE\<close>\<close>

definition detail_continuation_re :: rx where
  "detail_continuation_re =
     rx_seq [Bol, rx_alts [rx_lit_i ''Councilperson'',
                           rx_seq [rx_lit_i ''Council'', rx_plus ws, rx_lit_i ''president''],
                           rx_seq [rx_lit_i ''and'', rx_plus ws, rx_lit_i ''Councilperson'']]]"

text \<open>\<^verbatim>\<open>^\s*\d{1,2}\.\d{1,2}\s+\<close>, the item number in front of the first line.\<close>

definition item_prefix_re :: rx where
  "item_prefix_re = rx_seq [Bol, rx_star ws, item_no, rx_plus ws]"

text \<open>\<^verbatim>\<open>^Withdrawn\s*-?\s*Pdf\s*$\<close> and \<^verbatim>\<open>^(?:Ord|Res)\.\s*-?\s*Pdf\s*$\<close>\<close>

definition withdrawn_pdf_re :: rx where
  "withdrawn_pdf_re = rx_seq [Bol, rx_lit ''Withdrawn'', rx_star ws, rx_opt (rx_lit ''-''),
                              rx_star ws, rx_lit ''Pdf'', rx_star ws, Eol]"

definition bare_pdf_re :: rx where
  "bare_pdf_re = rx_seq [Bol, Alt (rx_lit ''Ord'') (rx_lit ''Res''), rx_lit ''.'', rx_star ws,
                         rx_opt (rx_lit ''-''), rx_star ws, rx_lit ''Pdf'', rx_star ws, Eol]"

text \<open>\<^verbatim>\<open>(Approved|Withdrawn|Defeated)\s*[-\<dots>]?\s*(\d+-\d+(?:-\d+)?)\<close> under
  \<^verbatim>\<open>re.IGNORECASE\<close>, and \<^verbatim>\<open>:\s*-?\s*(\d+-\d+(?:-\d+)?)\<close>\<close>

definition inline_vote_re :: rx where
  "inline_vote_re =
     rx_seq [Grp 1 (rx_alts [rx_lit_i ''Approved'', rx_lit_i ''Withdrawn'', rx_lit_i ''Defeated'']),
             rx_star ws, rx_opt dash, rx_star ws, Grp 2 tally_rx]"

definition claims_vote_re :: rx where
  "claims_vote_re = rx_seq [rx_lit '':'', rx_star ws, rx_opt (rx_lit ''-''), rx_star ws,
                            Grp 1 tally_rx]"

subsection \<open>Cleaning a title\<close>

text \<open>The substitutions of the source, in its order:
  \<^verbatim>\<open>\s*(?:Ord|Res)\.\s*(?:\d{2}-\d{3})?\s*-?\s*(?:Pdf|Withdrawn\s*-?\s*Pdf)?\s*$\<close>,
  \<^verbatim>\<open>\s*Withdrawn\s*-?\s*Pdf\s*$\<close>,
  \<^verbatim>\<open>\s*(?:Ord|Res)\.\s*\d{2}-\d{3}\s*-?\s*\<close> (replaced by a blank) and
  \<^verbatim>\<open>:\s*(?:Approved|Withdrawn|Defeated)\s*-?\s*\d+-\d+(?:-\d+)?\<close> under \<^verbatim>\<open>re.IGNORECASE\<close>.\<close>

definition trailing_file_ref_re :: rx where
  "trailing_file_ref_re =
     rx_seq [rx_star ws, Alt (rx_lit ''Ord'') (rx_lit ''Res''), rx_lit ''.'', rx_star ws,
             rx_opt (rx_seq [rx_times 2 dg, rx_lit ''-'', rx_times 3 dg]), rx_star ws,
             rx_opt (rx_lit ''-''), rx_star ws,
             rx_opt (Alt (rx_lit ''Pdf'')
                         (rx_seq [rx_lit ''Withdrawn'', rx_star ws, rx_opt (rx_lit ''-''), rx_star ws,
                                  rx_lit ''Pdf''])),
             rx_star ws, Eol]"

definition trailing_withdrawn_re :: rx where
  "trailing_withdrawn_re =
     rx_seq [rx_star ws, rx_lit ''Withdrawn'', rx_star ws, rx_opt (rx_lit ''-''), rx_star ws,
             rx_lit ''Pdf'', rx_star ws, Eol]"

definition inline_file_ref_re :: rx where
  "inline_file_ref_re =
     rx_seq [rx_star ws, Alt (rx_lit ''Ord'') (rx_lit ''Res''), rx_lit ''.'', rx_star ws,
             rx_times 2 dg, rx_lit ''-'', rx_times 3 dg, rx_star ws, rx_opt (rx_lit ''-''),
             rx_star ws]"

definition inline_tally_re :: rx where
  "inline_tally_re =
     rx_seq [rx_lit_i '':'', rx_star ws,
             rx_alts [rx_lit_i ''Approved'', rx_lit_i ''Withdrawn'', rx_lit_i ''Defeated''],
             rx_star ws, rx_opt (rx_lit_i ''-''), rx_star ws, tally_rx]"

definition clean_title :: "string list \<Rightarrow> string" where
  "clean_title title_parts =
     (let t0 = py_join '' '' title_parts;
          t1 = py_strip (collapse_ws t0);
          t2 = py_strip (re_sub trailing_file_ref_re (\<lambda>c. []) t1);
          t3 = py_strip (re_sub trailing_withdrawn_re (\<lambda>c. []) t2);
          t4 = py_strip (re_sub inline_file_ref_re (\<lambda>c. '' '') t3);
          t5 = collapse_ws t4
      in py_strip (re_sub inline_tally_re (\<lambda>c. []) t5))"

subsection \<open>Reconstructing one item\<close>

record minutes_item =
  m_item_number :: string
  m_title :: "string option"
  m_file_number :: "string option"
  m_result :: "string option"
  m_vote_tally :: "string option"
  m_votes :: "vote_breakdown option"
  m_vote_detail :: "string option"

text \<open>
  In \<open>minutes_item\<close> the fields \<open>m_title\<close>, \<open>m_file_number\<close>, \<open>m_result\<close> and \<open>m_vote_tally\<close>
  are always written, \<open>None\<close> being Python's \<^verbatim>\<open>None\<close>; \<open>m_votes\<close> and \<open>m_vote_detail\<close> are the
  keys \<^verbatim>\<open>"votes"\<close> and \<^verbatim>\<open>"vote_detail"\<close>, which the source adds to the record only under a
  condition: there \<open>None\<close> is a key left out.
\<close>

text \<open>The section prefix of an item number: \<^verbatim>\<open>item_number.split('.')[0]\<close>.\<close>

definition section_prefix :: "string \<Rightarrow> string" where
  "section_prefix item_num = (case py_split CHR ''.'' item_num of [] \<Rightarrow> [] | p # _ \<Rightarrow> p)"

text \<open>Python's truth value of a string that may be \<^verbatim>\<open>None\<close>.\<close>

definition truthy :: "string option \<Rightarrow> bool" where
  "truthy v = (case v of None \<Rightarrow> False | Some t \<Rightarrow> t \<noteq> [])"

text \<open>
  The lines of an item: the line of its number and the lines after it up to the next
  item number of a section from 3 to 12, the next section header or the next section
  number alone on its line.
\<close>

fun gather_item_lines :: "string list \<Rightarrow> string list \<Rightarrow> string list \<times> string list" where
  "gather_item_lines item_lines [] = (item_lines, [])"
| "gather_item_lines item_lines (nline # ls) =
     (if (case re_match item_re nline of
            Some nm \<Rightarrow> section_prefix (grp nm 1)
                         \<in> set [''3'', ''4'', ''5'', ''6'', ''7'', ''8'', ''9'', ''10'', ''11'', ''12'']
          | None \<Rightarrow> False)
      then (item_lines, nline # ls)
      else if matches section_re nline then (item_lines, nline # ls)
      else if matches section_number_alone nline then (item_lines, nline # ls)
      else gather_item_lines (item_lines @ [nline]) ls)"

record item_acc =
  title_parts :: "string list"
  vote_result :: "string option"
  vote_tally :: "string option"
  vote_detail_parts :: "string list"
  acc_file_number :: "string option"
  found_vote :: bool

text \<open>The lines after a vote line that go on with the vote detail: blank lines are
  passed over, and the first other line that does not start with a voter cue ends them.\<close>

fun detail_continuation :: "string list \<Rightarrow> string list" where
  "detail_continuation [] = []"
| "detail_continuation (l # ls) =
     (let kstripped = py_strip l in
      if kstripped = [] then detail_continuation ls
      else if matches detail_continuation_re kstripped then kstripped # detail_continuation ls
      else [])"

text \<open>One iteration of the loop over the lines of an item; \<open>first\<close> is \<^verbatim>\<open>j == 0\<close> and
  \<open>following\<close> are the lines of the item after this one.\<close>

definition item_line_step :: "bool \<Rightarrow> string \<Rightarrow> string list \<Rightarrow> item_acc \<Rightarrow> item_acc" where
  "item_line_step first iline following acc =
     (let istripped = py_strip iline;
          acc1 = (case re_search file_number_re istripped of
                    Some fm \<Rightarrow> acc\<lparr>acc_file_number := Some (normalize_file_number (grp fm 1))\<rparr>
                  | None \<Rightarrow> acc)
      in case re_match vote_re istripped of
           Some vm \<Rightarrow>
             acc1\<lparr>vote_result := Some (py_capitalize (grp vm 1)),
                  vote_tally := (if truthy (vm 2) then vm 2 else vote_tally acc1),
                  vote_detail_parts :=
                    vote_detail_parts acc1
                    @ (if truthy (vm 3) then [py_strip (grp vm 3)] else [])
                    @ detail_continuation following,
                  found_vote := True\<rparr>
         | None \<Rightarrow>
             if \<not> found_vote acc1 \<and> istripped \<noteq> []
             then (if first
                   then (let title_text = py_strip (re_sub item_prefix_re (\<lambda>c. []) iline) in
                         if title_text \<noteq> []
                         then acc1\<lparr>title_parts := title_parts acc1 @ [title_text]\<rparr>
                         else acc1)
                   else if matches file_number_re istripped then acc1
                   else if matches withdrawn_pdf_re istripped then acc1
                   else if matches bare_pdf_re istripped then acc1
                   else acc1\<lparr>title_parts := title_parts acc1 @ [istripped]\<rparr>)
             else acc1)"

fun item_lines_loop :: "bool \<Rightarrow> string list \<Rightarrow> item_acc \<Rightarrow> item_acc" where
  "item_lines_loop first [] acc = acc"
| "item_lines_loop first (iline # following) acc =
     item_lines_loop False following (item_line_step first iline following acc)"

text \<open>When no line gave a result, the joined lines are searched for a result with a
  tally, and for the claims (prefix 9) for a tally behind a colon.\<close>

definition infer_vote :: "string \<Rightarrow> string list \<Rightarrow> item_acc \<Rightarrow> item_acc" where
  "infer_vote sec_prefix item_lines acc =
     (if found_vote acc then acc
      else (let combined = py_join '' '' (map py_strip item_lines) in
            case re_search inline_vote_re combined of
              Some cm \<Rightarrow> acc\<lparr>vote_result := Some (py_capitalize (grp cm 1)), vote_tally := cm 2\<rparr>
            | None \<Rightarrow>
                if sec_prefix = ''9''
                then (case re_search claims_vote_re combined of
                        Some cm2 \<Rightarrow> acc\<lparr>vote_result := Some ''Approved'', vote_tally := cm2 1\<rparr>
                      | None \<Rightarrow> acc)
                else acc))"

text \<open>The breakdown of an item: four empty lists for a withdrawn item without a tally,
  the reconstruction from the tally where there is one, and nothing otherwise.\<close>

definition empty_votes :: vote_breakdown where
  "empty_votes = \<lparr>aye = [], nay = [], abstain = [], absent = []\<rparr>"

definition item_votes :: "string option \<Rightarrow> string option \<Rightarrow> string \<Rightarrow> string list
                            \<Rightarrow> py_error + vote_breakdown option" where
  "item_votes v_result v_tally vote_detail roster =
     (if truthy v_result
      then (if py_lower (the v_result) = ''withdrawn'' \<and> \<not> truthy v_tally
            then Inr (Some empty_votes)
            else if truthy v_tally
            then (case build_vote_breakdown (the v_result) (the v_tally) vote_detail roster of
                    Inl e \<Rightarrow> Inl e
                  | Inr v \<Rightarrow> Inr (Some v))
            else Inr None)
      else Inr None)"

text \<open>What the lines of an item give: the loop over the lines and the inference after
  it. The detail text is the collected detail parts joined by blanks.\<close>

definition scan_item :: "string \<Rightarrow> string list \<Rightarrow> item_acc" where
  "scan_item sec_prefix item_lines =
     infer_vote sec_prefix item_lines
       (item_lines_loop True item_lines
          \<lparr>title_parts = [], vote_result = None, vote_tally = None,
           vote_detail_parts = [], acc_file_number = None, found_vote = False\<rparr>)"

definition collected_detail :: "item_acc \<Rightarrow> string" where
  "collected_detail acc = py_join '' '' (vote_detail_parts acc)"

definition build_item :: "string list \<Rightarrow> string \<Rightarrow> string \<Rightarrow> string list \<Rightarrow> py_error + minutes_item" where
  "build_item roster item_num sec_prefix item_lines =
     (let acc = scan_item sec_prefix item_lines;
          t = clean_title (title_parts acc);
          vote_detail = collected_detail acc
      in case item_votes (vote_result acc) (vote_tally acc) vote_detail roster of
           Inl e \<Rightarrow> Inl e
         | Inr votes \<Rightarrow>
             Inr \<lparr>m_item_number = item_num,
                  m_title = (if t \<noteq> [] then Some t else None),
                  m_file_number = acc_file_number acc,
                  m_result = (if truthy (vote_result acc)
                              then Some (py_lower (the (vote_result acc))) else None),
                  m_vote_tally = vote_tally acc,
                  m_votes = votes,
                  m_vote_detail = (if vote_detail \<noteq> [] then Some vote_detail else None)\<rparr>)"

subsection \<open>The scan\<close>

text \<open>
  A line opens a section when it is a section header, or a section number alone on its
  line whose next line that is not blank starts like a section title.
\<close>

definition section_line :: "string \<Rightarrow> string list \<Rightarrow> caps option" where
  "section_line l after =
     (case re_match section_re l of
        Some sm \<Rightarrow> Some sm
      | None \<Rightarrow>
          (case re_match section_number_alone l of
             None \<Rightarrow> None
           | Some sm2 \<Rightarrow>
               (case dropWhile (\<lambda>x. py_strip x = []) after of
                  [] \<Rightarrow> None
                | peek # _ \<Rightarrow> if matches section_title_re (py_strip peek) then Some sm2 else None)))"

text \<open>One iteration of the loop: the lines left, the items so far and the section
  tracked.\<close>

definition minutes_step :: "string list \<Rightarrow> string \<Rightarrow> string list \<Rightarrow> minutes_item list \<Rightarrow> int option
     \<Rightarrow> py_error + string list \<times> minutes_item list \<times> int option" where
  "minutes_step roster l after items current_section =
     (case section_line l after of
        Some sm \<Rightarrow>
          (case py_int (grp sm 1) of
             Inl e \<Rightarrow> Inl e
           | Inr sec_num \<Rightarrow> Inr (after, items, Some sec_num))
      | None \<Rightarrow>
          (case re_match item_re l of
             Some im \<Rightarrow>
               (let item_num = grp im 1;
                    sec_prefix = section_prefix item_num
                in if sec_prefix \<notin> set [''3'', ''4'', ''9'', ''10'']
                   then Inr (after, items, current_section)
                   else (let (item_lines, r) = gather_item_lines [l] after in
                         case build_item roster item_num sec_prefix item_lines of
                           Inl e \<Rightarrow> Inl e
                         | Inr item_data \<Rightarrow> Inr (r, items @ [item_data], current_section)))
           | None \<Rightarrow> Inr (after, items, current_section)))"

text \<open>The loop \<^verbatim>\<open>while i < len(lines)\<close>, with fuel as in the agenda parser.\<close>

fun minutes_loop :: "nat \<Rightarrow> string list \<Rightarrow> string list \<Rightarrow> minutes_item list \<Rightarrow> int option
                       \<Rightarrow> (py_error + minutes_item list) option" where
  "minutes_loop fuel roster [] items current_section = Some (Inr items)"
| "minutes_loop 0 roster (l # after) items current_section = None"
| "minutes_loop (Suc fuel) roster (l # after) items current_section =
     (case minutes_step roster l after items current_section of
        Inl e \<Rightarrow> Some (Inl e)
      | Inr (r, items', current') \<Rightarrow> minutes_loop fuel roster r items' current')"

text \<open>\<open>parse_minutes\<close> from the lines of the minutes and the roster on: the items of the
  result.\<close>

definition parse_minutes :: "string list \<Rightarrow> string list \<Rightarrow> (py_error + minutes_item list) option" where
  "parse_minutes roster lines = minutes_loop (length lines) roster lines [] None"

section \<open>The packet splitter (split_packet.py)\<close>

text \<open>
  The packet is the list of the texts of its pages. What the PDF library does with a
  page range is not modelled: a saved file is recorded as its path together with the
  \<^verbatim>\<open>from_page\<close> and \<^verbatim>\<open>to_page\<close> handed to \<^verbatim>\<open>insert_pdf\<close>. A file is saved into a
  subdirectory of the output directory; the subdirectories that exist are a parameter
  of the model, and saving into one that does not exist raises (\<open>SaveError\<close> stands for
  the exception of the library).
\<close>

definition SECTION_DIR_TABLE :: "(string \<times> string) list" where
  "SECTION_DIR_TABLE = [(''ordinance_first_reading'', ''ordinances''),
                        (''ordinance_second_reading'', ''ordinances''),
                        (''resolutions'', ''resolutions''),
                        (''claims'', ''claims'')]"

definition SECTION_DIR_MAP :: "string \<rightharpoonup> string" where
  "SECTION_DIR_MAP = map_of SECTION_DIR_TABLE"

text \<open>The subdirectories \<open>split_packet\<close> creates before it saves anything: the one of the
  agenda and the values of \<open>SECTION_DIR_MAP\<close>. The subdirectory \<^verbatim>\<open>other\<close>, which
  \<open>subdir_for_item\<close> gives for every other section type, is not among them.\<close>

definition created_dirs :: "string list" where
  "created_dirs = ''agenda'' # map snd SECTION_DIR_TABLE"

text \<open>The substitutions of \<open>sanitize_filename\<close>: \<^verbatim>\<open>\.\s*\<close>, \<^verbatim>\<open>\s+\<close> and \<^verbatim>\<open>-+\<close> become a hyphen,
  \<^verbatim>\<open>[^\w\-]\<close> is dropped.\<close>

definition sanitize_filename :: "string \<Rightarrow> string" where
  "sanitize_filename s =
     (let s1 = re_sub (Seq (rx_lit ''.'') (rx_star ws)) (\<lambda>c. ''-'') s;
          s2 = re_sub (rx_plus ws) (\<lambda>c. ''-'') s1;
          s3 = re_sub (Chr (\<lambda>ch. \<not> (is_word ch \<or> ch = CHR ''-''))) (\<lambda>c. []) s2;
          s4 = re_sub (rx_plus (rx_lit ''-'')) (\<lambda>c. ''-'') s3
      in py_strip_chars ''-'' s4)"

text \<open>The format \<^verbatim>\<open>{n:02d}\<close>.\<close>

definition fmt_02d :: "int \<Rightarrow> string" where
  "fmt_02d n = (if 0 \<le> n \<and> n < 10 then CHR ''0'' # py_str n else py_str n)"

text \<open>In \<open>build_filename\<close> the first part of the item number is read as an integer before
  the second part is looked up: an item number without a dot raises ValueError if it is
  not a number and IndexError if it is.\<close>

definition build_filename :: "agenda_item \<Rightarrow> py_error + string" where
  "build_filename item =
     (case py_split CHR ''.'' (item_number item) of
        [] \<Rightarrow> Inl IndexError
      | p0 # ps \<Rightarrow>
          (case py_int p0 of
             Inl e \<Rightarrow> Inl e
           | Inr n0 \<Rightarrow>
               (case ps of
                  [] \<Rightarrow> Inl IndexError
                | p1 # _ \<Rightarrow>
                    (case py_int p1 of
                       Inl e \<Rightarrow> Inl e
                     | Inr n1 \<Rightarrow>
                         (let padded = fmt_02d n0 @ ''.'' @ fmt_02d n1 in
                          if truthy (file_number item)
                          then Inr (padded @ ''_'' @ item_type item @ ''_''
                                    @ sanitize_filename (the (file_number item)) @ ''.pdf'')
                          else Inr (padded @ ''_'' @ item_type item @ ''.pdf''))))))"

definition subdir_for_item :: "agenda_item \<Rightarrow> string \<Rightarrow> string" where
  "subdir_for_item item section_type =
     (case SECTION_DIR_MAP section_type of Some d \<Rightarrow> d | None \<Rightarrow> ''other'')"

text \<open>\<open>validate_split\<close> looks for the file number, blanks removed, on the first pages of
  the range: the pages \<^verbatim>\<open>range(page_start_0, min(page_end_0 + 1, page_start_0 + 3))\<close>.
  A page number below 0 counts from the end of the packet, as the PDF library indexes
  its pages, and a page number beyond the last page is an IndexError. The splitter
  calls \<open>validate_split\<close> after its bounds check, so with page numbers of the packet.\<close>

definition remove_blanks :: "string \<Rightarrow> string" where
  "remove_blanks s = filter (\<lambda>ch. ch \<noteq> CHR '' '') s"

fun pages_contain :: "string list \<Rightarrow> string \<Rightarrow> int list \<Rightarrow> py_error + bool" where
  "pages_contain packet norm [] = Inr False"
| "pages_contain packet norm (pg # pgs) =
     (if packet \<noteq> [] \<and> pg < int (length packet)
      then (if py_in norm (remove_blanks (packet ! nat (pg mod int (length packet)))) then Inr True
            else pages_contain packet norm pgs)
      else Inl IndexError)"

definition validate_split :: "string list \<Rightarrow> agenda_item \<Rightarrow> int \<Rightarrow> int \<Rightarrow> py_error + bool" where
  "validate_split packet item page_start_0 page_end_0 =
     (if \<not> truthy (file_number item) then Inr True
      else pages_contain packet (remove_blanks (the (file_number item)))
             [page_start_0 .. min (page_end_0 + 1) (page_start_0 + 3) - 1])"

record manifest_entry =
  e_item_number :: string
  e_title :: string
  e_item_type :: string
  e_file_number :: "string option"
  e_page_start :: int
  e_page_end :: int
  e_page_count :: int
  e_output_file :: string

record split_state =
  manifest_entries :: "manifest_entry list"
  total_pages_split :: int
  warnings :: "string list"
  saved :: "(string \<times> int \<times> int) list"

text \<open>The two warnings.\<close>

definition bounds_warning :: "agenda_item \<Rightarrow> int \<Rightarrow> int \<Rightarrow> int \<Rightarrow> string" where
  "bounds_warning item pstart pend total_packet_pages =
     ''WARNING: Item '' @ item_number item @ '' pages '' @ py_str pstart @ ''-'' @ py_str pend
     @ '' out of bounds (packet has '' @ py_str total_packet_pages @ '' pages)''"

definition content_warning :: "agenda_item \<Rightarrow> int \<Rightarrow> int \<Rightarrow> string" where
  "content_warning item pstart pend =
     ''WARNING: Item '' @ item_number item @ '' - file number '' @ [CHR 0x27]
     @ (case file_number item of None \<Rightarrow> ''None'' | Some f \<Rightarrow> f) @ [CHR 0x27]
     @ '' not found in pages '' @ py_str pstart @ ''-'' @ py_str pend"

text \<open>The body of the loop over the items to split; \<open>dirs\<close> are the subdirectories of
  the output directory that exist. An item without a page range does not reach the
  loop; subtracting 1 from \<^verbatim>\<open>None\<close> would be a TypeError. The file name is built before
  the file is saved, and an exception ends the run before the manifest is written.\<close>

definition split_item :: "string list \<Rightarrow> string list \<Rightarrow> agenda_item \<times> string \<Rightarrow> split_state
                            \<Rightarrow> py_error + split_state" where
  "split_item dirs packet x st =
     (let item = fst x; sec_type = snd x; total_packet_pages = int (length packet) in
      case (page_start item, page_end item) of
        (Some pstart, Some pend) \<Rightarrow>
          (let start_0 = pstart - 1; end_0 = pend - 1 in
           if start_0 < 0 \<or> end_0 \<ge> total_packet_pages
           then Inr (st\<lparr>warnings := warnings st
                                     @ [bounds_warning item pstart pend total_packet_pages]\<rparr>)
           else (case validate_split packet item start_0 end_0 of
                   Inl e \<Rightarrow> Inl e
                 | Inr valid \<Rightarrow>
                     (case build_filename item of
                        Inl e \<Rightarrow> Inl e
                      | Inr filename \<Rightarrow>
                          (let subdir = subdir_for_item item sec_type;
                               rel_path = subdir @ ''/'' @ filename;
                               page_count = end_0 - start_0 + 1
                           in if subdir \<notin> set dirs then Inl SaveError
                              else
                              Inr \<lparr>manifest_entries = manifest_entries st
                                      @ [\<lparr>e_item_number = item_number item, e_title = title item,
                                          e_item_type = item_type item,
                                          e_file_number = file_number item,
                                          e_page_start = pstart, e_page_end = pend,
                                          e_page_count = page_count, e_output_file = rel_path\<rparr>],
                                   total_pages_split = total_pages_split st + page_count,
                                   warnings = warnings st
                                      @ (if valid then [] else [content_warning item pstart pend]),
                                   saved = saved st @ [(rel_path, start_0, end_0)]\<rparr>))))
      | _ \<Rightarrow> Inl TypeError)"

fun split_items :: "string list \<Rightarrow> string list \<Rightarrow> (agenda_item \<times> string) list \<Rightarrow> split_state
                      \<Rightarrow> py_error + split_state" where
  "split_items dirs packet [] st = Inr st"
| "split_items dirs packet (x # xs) st =
     (case split_item dirs packet x st of
        Inl e \<Rightarrow> Inl e
      | Inr st' \<Rightarrow> split_items dirs packet xs st')"

text \<open>The items with a page range, each with the type of its section, sorted by their
  first page (the sort is stable), and the state after the agenda itself is saved.\<close>

definition page_start_key :: "agenda_item \<times> string \<Rightarrow> int" where
  "page_start_key x = (case page_start (fst x) of Some p \<Rightarrow> p | None \<Rightarrow> 0)"

definition items_to_split :: "agenda_section list \<Rightarrow> (agenda_item \<times> string) list" where
  "items_to_split sections =
     sort_key page_start_key
       (concat (map (\<lambda>section. map (\<lambda>item. (item, sec_type section))
                                   (filter (\<lambda>item. page_start item \<noteq> None \<and> page_end item \<noteq> None)
                                           (sec_items section)))
                    sections))"

definition agenda_saved :: "int \<Rightarrow> split_state" where
  "agenda_saved agenda_pages =
     \<lparr>manifest_entries = [\<lparr>e_item_number = ''0.0'', e_title = ''Agenda'', e_item_type = ''agenda'',
                            e_file_number = None, e_page_start = 1, e_page_end = agenda_pages,
                            e_page_count = agenda_pages,
                            e_output_file = ''agenda/00.00_agenda.pdf''\<rparr>],
      total_pages_split = agenda_pages,
      warnings = [],
      saved = [(''agenda/00.00_agenda.pdf'', 0, agenda_pages - 1)]\<rparr>"

text \<open>\<open>split_packet\<close>: the subdirectories the output directory has before the run, the
  packet, the number of agenda pages as the agenda file gives it (9 if it gives none)
  and the sections of the agenda.\<close>

definition split_packet :: "string list \<Rightarrow> string list \<Rightarrow> int option \<Rightarrow> agenda_section list
                              \<Rightarrow> py_error + split_state" where
  "split_packet existing packet agenda_pages sections =
     split_items (existing @ created_dirs) packet (items_to_split sections)
       (agenda_saved (case agenda_pages of None \<Rightarrow> 9 | Some n \<Rightarrow> n))"

section \<open>Notions used in the statements\<close>

text \<open>The number a string of decimal digits denotes.\<close>

definition dec_value :: "string \<Rightarrow> int" where
  "dec_value s = foldl (\<lambda>a ch. 10 * a + digit_val ch) 0 s"

definition is_number :: "string \<Rightarrow> bool" where
  "is_number s = (s \<noteq> [] \<and> list_all is_digit s)"

text \<open>The number of names in a breakdown.\<close>

definition breakdown_size :: "vote_breakdown \<Rightarrow> nat" where
  "breakdown_size v = length (aye v) + length (nay v) + length (abstain v) + length (absent v)"

text \<open>Every item of a section carries the number of the section in front of its dot.\<close>

definition items_belong :: "agenda_section \<Rightarrow> bool" where
  "items_belong s =
     list_all (\<lambda>it. section_prefix (item_number it) = py_str (sec_number s)) (sec_items s)"

text \<open>How the fields \<open>m_votes\<close> and \<open>m_vote_detail\<close> of an item depend on its result and
  tally: four empty lists for a withdrawn item without a tally, no breakdown for
  another item without a tally, and a vote detail that, when present, is not empty.\<close>

definition votes_rule :: "minutes_item \<Rightarrow> bool" where
  "votes_rule it =
     ((m_result it = Some ''withdrawn'' \<and> m_vote_tally it = None \<longrightarrow> m_votes it = Some empty_votes) \<and>
      (m_result it \<noteq> Some ''withdrawn'' \<and> m_vote_tally it = None \<longrightarrow> m_votes it = None) \<and>
      m_vote_detail it \<noteq> Some [])"

text \<open>How a record depends on what the lines of its item gave: the tally is the one
  found, the result is the one found in lower case, and the field \<open>m_vote_detail\<close> is left
  out when the collected detail text is empty and is that text otherwise.\<close>

definition detail_rule :: "item_acc \<Rightarrow> minutes_item \<Rightarrow> bool" where
  "detail_rule acc it =
     (m_vote_tally it = vote_tally acc \<and>
      m_result it = (if truthy (vote_result acc) then Some (py_lower (the (vote_result acc)))
                     else None) \<and>
      (collected_detail acc = [] \<longrightarrow> m_vote_detail it = None) \<and>
      (collected_detail acc \<noteq> [] \<longrightarrow> m_vote_detail it = Some (collected_detail acc)))"

text \<open>The section prefixes the minutes parser reads items of.\<close>

definition voted_sections :: "string set" where
  "voted_sections = {''3'', ''4'', ''9'', ''10''}"

text \<open>The groups of a pattern, and a group that holds a number of at most \<open>k\<close> digits.\<close>

primrec grps :: "rx \<Rightarrow> nat set" where
  "grps (Chr P) = {}"
| "grps Eps = {}"
| "grps Bol = {}"
| "grps Eol = {}"
| "grps (Seq a b) = grps a \<union> grps b"
| "grps (Alt a b) = grps a \<union> grps b"
| "grps (Rep a lo hi) = grps a"
| "grps (Grp g a) = insert g (grps a)"

definition holds_number :: "nat \<Rightarrow> string option \<Rightarrow> bool" where
  "holds_number k v = (case v of None \<Rightarrow> False | Some d \<Rightarrow> is_number d \<and> length d \<le> k)"

section \<open>Facts about strings and numbers\<close>

lemma digit_val_range: "is_digit x \<Longrightarrow> 0 \<le> digit_val x \<and> digit_val x \<le> 9"
  by (auto simp: is_digit_def digit_val_def)

lemma digit_not_space: "is_digit x \<Longrightarrow> \<not> is_space x"
  by (auto simp: is_digit_def is_space_def)

lemma digit_not_sign: "is_digit x \<Longrightarrow> x \<noteq> CHR ''-'' \<and> x \<noteq> CHR ''+'' \<and> x \<noteq> CHR ''.'' \<and> x \<noteq> CHR ''_''"
  by (auto simp: is_digit_def)

lemma digit_not_int_space: "is_digit x \<Longrightarrow> \<not> is_int_space x"
  by (auto simp: is_digit_def is_int_space_def)

lemma strip_both_id:
  assumes "s \<noteq> []" and "\<not> P (hd s)" and "\<not> P (last s)"
  shows "rev (dropWhile P (rev (dropWhile P s))) = s"
proof -
  from assms have 1: "dropWhile P s = s"
    by (cases s) auto
  from assms have "dropWhile P (rev s) = rev s"
    by (cases "rev s") (auto simp: last_rev hd_rev)
  with 1 show ?thesis by simp
qed

lemma py_strip_id:
  assumes "s \<noteq> []" and "\<not> is_space (hd s)" and "\<not> is_space (last s)"
  shows "py_strip s = s"
  using strip_both_id [OF assms] by (simp add: py_strip_def py_lstrip_def py_rstrip_def)

lemma int_digits_all:
  "list_all is_digit xs \<Longrightarrow>
     int_digits acc xs = Some (foldl (\<lambda>a ch. 10 * a + digit_val ch) acc xs)"
  by (induction acc xs rule: int_digits.induct) auto

lemma is_number_strip: "is_number s \<Longrightarrow> int_strip s = s"
  unfolding is_number_def int_strip_def
  by (rule strip_both_id) (auto simp: list_all_iff digit_not_int_space)

lemma py_int_number:
  assumes "is_number s" and "length s \<le> int_max_str_digits"
  shows "py_int s = Inr (dec_value s)"
proof -
  from assms(1) obtain x xs where s: "s = x # xs" and x: "is_digit x" and xs: "list_all is_digit xs"
    by (cases s) (auto simp: is_number_def)
  from x have sign: "x \<noteq> CHR ''-''" "x \<noteq> CHR ''+''"
    using digit_not_sign by blast+
  have v: "int_digits (digit_val x) xs = Some (dec_value s)"
    using int_digits_all [OF xs, of "digit_val x"] by (simp add: s dec_value_def)
  from xs have "filter is_digit xs = xs"
    by (simp add: list_all_iff)
  with assms(2) x have "\<not> int_max_str_digits < length (filter is_digit (x # xs))"
    by (simp add: s)
  with v is_number_strip [OF assms(1)] x sign show ?thesis
    by (simp add: py_int_def s)
qed

lemma py_int_too_long:
  assumes "is_number s" and "int_max_str_digits < length s"
  shows "py_int s = Inl ValueError"
proof -
  from assms(1) obtain x xs where s: "s = x # xs" and x: "is_digit x" and xs: "list_all is_digit xs"
    by (cases s) (auto simp: is_number_def)
  from x have sign: "x \<noteq> CHR ''-''" "x \<noteq> CHR ''+''"
    using digit_not_sign by blast+
  have v: "int_digits (digit_val x) xs = Some (dec_value s)"
    using int_digits_all [OF xs, of "digit_val x"] by (simp add: s dec_value_def)
  from xs have "filter is_digit xs = xs"
    by (simp add: list_all_iff)
  with assms(2) x have "int_max_str_digits < length (filter is_digit (x # xs))"
    by (simp add: s)
  with v is_number_strip [OF assms(1)] x sign show ?thesis
    by (simp add: py_int_def s)
qed

lemma foldl_digits_bounds:
  "list_all is_digit xs \<Longrightarrow> 0 \<le> acc \<Longrightarrow>
     acc * 10 ^ length xs \<le> foldl (\<lambda>a ch. 10 * a + digit_val ch) acc xs \<and>
     foldl (\<lambda>a ch. 10 * a + digit_val ch) acc xs < (acc + 1) * 10 ^ length xs"
proof (induction xs arbitrary: acc)
  case Nil
  then show ?case by simp
next
  case (Cons x xs)
  from Cons.prems have x: "0 \<le> digit_val x" "digit_val x \<le> 9"
    using digit_val_range by auto
  let ?a = "10 * acc + digit_val x"
  from Cons.prems x have a: "0 \<le> ?a" by simp
  from Cons.prems have xs: "list_all is_digit xs" by simp
  note ih = Cons.IH [OF xs a]
  have lo: "acc * 10 ^ length (x # xs) \<le> ?a * 10 ^ length xs"
    using x by (simp add: algebra_simps)
  have "?a + 1 \<le> (acc + 1) * 10"
    using x by simp
  then have "(?a + 1) * 10 ^ length xs \<le> ((acc + 1) * 10) * 10 ^ length xs"
    by (rule mult_right_mono) simp
  then have hi: "(?a + 1) * 10 ^ length xs \<le> (acc + 1) * 10 ^ length (x # xs)"
    by (simp add: algebra_simps)
  let ?F = "foldl (\<lambda>a ch. 10 * a + digit_val ch) ?a xs"
  from ih have l: "?a * 10 ^ length xs \<le> ?F" and h: "?F < (?a + 1) * 10 ^ length xs"
    by blast+
  from lo l have 1: "acc * 10 ^ length (x # xs) \<le> ?F"
    by (rule order_trans)
  from h hi have 2: "?F < (acc + 1) * 10 ^ length (x # xs)"
    by (rule less_le_trans)
  have "foldl (\<lambda>a ch. 10 * a + digit_val ch) acc (x # xs) = ?F"
    by simp
  with 1 2 show ?case by presburger
qed

lemma dec_value_bounds:
  "list_all is_digit s \<Longrightarrow> 0 \<le> dec_value s \<and> dec_value s < 10 ^ length s"
  using foldl_digits_bounds [of s 0] by (simp add: dec_value_def)

lemma py_split_no_sep: "sep \<notin> set a \<Longrightarrow> py_split sep a = [a]"
  by (induction a) auto

lemma py_split_at_sep:
  "sep \<notin> set a \<Longrightarrow> py_split sep (a @ sep # r) = a # py_split sep r"
  by (induction a) (auto split: list.splits)

lemma py_split_parts_no_sep: "p \<in> set (py_split sep s) \<Longrightarrow> sep \<notin> set p"
  by (induction s arbitrary: p) (auto split: list.splits if_splits)

lemma number_no_hyphen: "is_number s \<Longrightarrow> CHR ''-'' \<notin> set s"
  by (auto simp: is_number_def list_all_iff dest: digit_not_sign)

text \<open>The decimal numeral of a natural number is a number in this sense, and denotes it.\<close>

lemma digit_char_digit: "is_digit (digit_char d)"
proof -
  have "d mod 10 \<in> {0, 1, 2, 3, 4, 5, 6, 7, 8, 9}" by simp arith
  then show ?thesis
    by (auto simp: digit_char_def is_digit_def)
qed

lemma digit_val_digit_char: "d < 10 \<Longrightarrow> digit_val (digit_char d) = int d"
proof -
  assume "d < 10"
  then have "d \<in> {0, 1, 2, 3, 4, 5, 6, 7, 8, 9}" by simp arith
  then show ?thesis
    by (auto simp: digit_char_def digit_val_def)
qed

lemma str_nat_number: "is_number (str_nat n)"
proof (induction n rule: str_nat.induct)
  case (1 n)
  show ?case
  proof (cases "n < 10")
    case True
    then show ?thesis
      by (subst str_nat.simps) (simp add: is_number_def digit_char_digit)
  next
    case False
    with 1 have "is_number (str_nat (n div 10))" by simp
    with False show ?thesis
      by (subst str_nat.simps) (simp add: is_number_def digit_char_digit)
  qed
qed

lemma dec_value_str_nat: "dec_value (str_nat n) = int n"
proof (induction n rule: str_nat.induct)
  case (1 n)
  show ?case
  proof (cases "n < 10")
    case True
    then show ?thesis
      by (subst str_nat.simps) (simp add: dec_value_def digit_val_digit_char)
  next
    case False
    with 1 have ih: "dec_value (str_nat (n div 10)) = int (n div 10)" by simp
    have "dec_value (str_nat n) = 10 * dec_value (str_nat (n div 10)) + digit_val (digit_char (n mod 10))"
      using False by (subst str_nat.simps) (simp add: dec_value_def)
    also have "\<dots> = 10 * int (n div 10) + int (n mod 10)"
      by (simp add: ih digit_val_digit_char)
    also have "\<dots> = int n"
      by presburger
    finally show ?thesis .
  qed
qed

section \<open>Properties of the line patterns\<close>

lemma set_rmatch_Seq:
  "(s'', c'') \<in> set (rmatch n (Seq a b) s c) \<longleftrightarrow>
     (\<exists>s' c'. (s', c') \<in> set (rmatch n a s c) \<and> (s'', c'') \<in> set (rmatch n b s' c'))"
  by auto

lemma rrep_keeps:
  assumes "\<And>s c s' c'. (s', c') \<in> set (m s c) \<Longrightarrow> c' g = c g"
  shows "(s', c') \<in> set (rrep m lo k s c) \<Longrightarrow> c' g = c g"
proof (induction k arbitrary: lo s c)
  case 0
  then show ?case by (simp split: if_splits)
next
  case (Suc k)
  from Suc.prems consider
    (iter) s1 c1 where "(s1, c1) \<in> set (m s c)" "(s', c') \<in> set (rrep m (lo - 1) k s1 c1)"
    | (stop) "s' = s" "c' = c"
    by (auto split: if_splits)
  then show ?case
  proof cases
    case iter
    from Suc.IH [OF iter(2)] assms [OF iter(1)] show ?thesis by simp
  next
    case stop
    then show ?thesis by simp
  qed
qed

lemma rmatch_keeps:
  "g \<notin> grps r \<Longrightarrow> (s', c') \<in> set (rmatch n r s c) \<Longrightarrow> c' g = c g"
proof (induction r arbitrary: s c s' c')
  case (Chr P)
  then show ?case by (auto split: list.splits if_splits)
next
  case (Seq a b)
  from Seq.prems(2) obtain s1 c1 where
    "(s1, c1) \<in> set (rmatch n a s c)" "(s', c') \<in> set (rmatch n b s1 c1)"
    by auto
  with Seq.IH Seq.prems(1) show ?case by (metis UnCI grps.simps(5))
next
  case (Alt a b)
  then show ?case by auto
next
  case (Rep r lo hi)
  show ?case
  proof (rule rrep_keeps [where m = "rmatch n r"])
    fix s c s' c'
    assume "(s', c') \<in> set (rmatch n r s c)"
    with Rep.IH Rep.prems(1) show "c' g = c g" by simp
  next
    from Rep.prems(2)
    show "(s', c') \<in> set (rrep (rmatch n r) lo (case hi of None \<Rightarrow> length s | Some h \<Rightarrow> h) s c)"
      by simp
  qed
next
  case (Grp h r)
  then show ?case by auto
qed (auto split: if_splits)

lemma rrep_one_char:
  assumes "\<And>s c s1 c1. (s1, c1) \<in> set (m s c) \<Longrightarrow> c1 = c \<and> (\<exists>x. s = x # s1 \<and> P x)"
  shows "(s', c') \<in> set (rrep m lo k s c) \<Longrightarrow>
           c' = c \<and> (\<exists>d. s = d @ s' \<and> lo \<le> length d \<and> length d \<le> k \<and> list_all P d)"
proof (induction k arbitrary: lo s c)
  case 0
  then show ?case by (simp split: if_splits)
next
  case (Suc k)
  from Suc.prems consider
    (iter) s1 c1 where "(s1, c1) \<in> set (m s c)" "(s', c') \<in> set (rrep m (lo - 1) k s1 c1)"
    | (stop) "s' = s" "c' = c" "lo = 0"
    by (auto split: if_splits)
  then show ?case
  proof cases
    case iter
    from assms [OF iter(1)] obtain x where x: "s = x # s1" "P x" "c1 = c"
      by blast
    from Suc.IH [OF iter(2)] obtain d where
      "c' = c1" "s1 = d @ s'" "lo - 1 \<le> length d" "length d \<le> k" "list_all P d"
      by blast
    with x have "c' = c \<and> s = (x # d) @ s' \<and> lo \<le> length (x # d) \<and> length (x # d) \<le> Suc k
                   \<and> list_all P (x # d)"
      by auto
    then show ?thesis by blast
  next
    case stop
    then show ?thesis by simp
  qed
qed

lemma rrep_chr:
  "(s', c') \<in> set (rrep (rmatch n (Chr P)) lo k s c) \<Longrightarrow>
     c' = c \<and> (\<exists>d. s = d @ s' \<and> lo \<le> length d \<and> length d \<le> k \<and> list_all P d)"
  by (rule rrep_one_char [where m = "rmatch n (Chr P)"]) (auto split: list.splits if_splits)

lemma number_group:
  assumes "(s', c') \<in> set (rmatch n (Grp g (Rep dg 1 (Some k))) s c)"
  shows "holds_number k (c' g)"
proof -
  from assms obtain c1 where r: "(s', c1) \<in> set (rrep (rmatch n (Chr is_digit)) 1 k s c)"
    and c': "c' = c1(g \<mapsto> take (length s - length s') s)"
    by (auto simp: dg_def)
  from rrep_chr [OF r] obtain d where "s = d @ s'" "1 \<le> length d" "length d \<le> k" "list_all is_digit d"
    by blast
  with c' show ?thesis
    by (auto simp: holds_number_def is_number_def)
qed

lemma page_range_groups:
  assumes "(s', c') \<in> set (rmatch n page_range s c)"
  shows "holds_number 3 (c' 1) \<and> holds_number 3 (c' 2)"
proof -
  let ?mid = "Seq (rx_star ws) (Seq (rx_lit ''-'') (rx_star ws))"
  let ?g1 = "Grp 1 (Rep dg 1 (Some 3))" and ?g2 = "Grp 2 (Rep dg 1 (Some 3))"
  from assms obtain s1 c1 s2 c2 s3 c3 s4 c4 where
    1: "(s1, c1) \<in> set (rmatch n ?g1 s c)"
    and 2: "(s2, c2) \<in> set (rmatch n (rx_star ws) s1 c1)"
    and 3: "(s3, c3) \<in> set (rmatch n (rx_lit ''-'') s2 c2)"
    and 4: "(s4, c4) \<in> set (rmatch n (rx_star ws) s3 c3)"
    and 5: "(s', c') \<in> set (rmatch n ?g2 s4 c4)"
    unfolding page_range_def rx_seq.simps set_rmatch_Seq by blast
  have k: "1 \<notin> grps (rx_star ws)" "1 \<notin> grps (rx_lit ''-'')" "1 \<notin> grps ?g2"
    by (simp_all add: rx_star_def rx_lit_def ws_def dg_def)
  from rmatch_keeps [OF k(1) 2] rmatch_keeps [OF k(2) 3] rmatch_keeps [OF k(1) 4]
    rmatch_keeps [OF k(3) 5]
  have "c' 1 = c1 1" by simp
  with number_group [OF 1] number_group [OF 5] show ?thesis by simp
qed

lemma re_match_result:
  "re_match p l = Some c \<Longrightarrow> \<exists>s'. (s', c) \<in> set (rmatch (length l) p l Map.empty)"
  by (auto simp: re_match_def split: list.splits)

lemma range_header_groups:
  assumes "(s', c') \<in> set (rmatch n (Seq Bol (Seq (rx_star ws) (Seq page_range tail))) s c)"
    and "1 \<notin> grps tail" and "2 \<notin> grps tail"
  shows "holds_number 3 (c' 1) \<and> holds_number 3 (c' 2)"
proof -
  from assms(1) obtain s1 c1 s2 c2 s3 c3 where
    "(s3, c3) \<in> set (rmatch n page_range s2 c2)" and t: "(s', c') \<in> set (rmatch n tail s3 c3)"
    unfolding set_rmatch_Seq by blast
  from page_range_groups [OF this(1)] rmatch_keeps [OF assms(2) t] rmatch_keeps [OF assms(3) t]
  show ?thesis by simp
qed

lemma holds_number_int:
  assumes "holds_number 3 (c g)"
  shows "\<exists>v. py_int (grp c g) = Inr v \<and> 0 \<le> v \<and> v \<le> 999"
proof -
  from assms obtain d where d: "c g = Some d" "is_number d" "length d \<le> 3"
    by (auto simp: holds_number_def split: option.splits)
  from d(2) have "list_all is_digit d" by (simp add: is_number_def)
  from dec_value_bounds [OF this] have "0 \<le> dec_value d" "dec_value d < 10 ^ length d"
    by simp_all
  moreover from d(3) have "(10::int) ^ length d \<le> 10 ^ 3"
    by (intro power_increasing) simp_all
  ultimately have "0 \<le> dec_value d \<and> dec_value d \<le> 999" by simp
  moreover from d(3) have "length d \<le> int_max_str_digits"
    by (simp add: int_max_str_digits_def)
  ultimately show ?thesis
    using py_int_number [OF d(2)] d(1) by (simp add: grp_def)
qed

text \<open>
  Claim C4, as the code has it. The two patterns for an item header with a page range
  (with a title on the line, and without) take as each end of the range a number of one
  to three decimal digits: whenever one of them matches, both ends are integers from
  0 to 999. The patterns do not compare the two ends.
\<close>

theorem range_header_endpoints:
  assumes "re_match pattern_a l = Some c \<or> re_match pattern_b_range_item l = Some c"
  shows "\<exists>a b. range_ints c = Inr (a, b) \<and> 0 \<le> a \<and> a \<le> 999 \<and> 0 \<le> b \<and> b \<le> 999"
proof -
  have "holds_number 3 (c 1) \<and> holds_number 3 (c 2)"
    using assms
  proof
    assume "re_match pattern_a l = Some c"
    from re_match_result [OF this] obtain s' where
      "(s', c) \<in> set (rmatch (length l) pattern_a l Map.empty)" ..
    then show ?thesis
      unfolding pattern_a_def rx_seq.simps
      by (rule range_header_groups)
         (simp_all add: rx_plus_def rx_lit_def ws_def dg_def dot_def item_no_def)
  next
    assume "re_match pattern_b_range_item l = Some c"
    from re_match_result [OF this] obtain s' where
      "(s', c) \<in> set (rmatch (length l) pattern_b_range_item l Map.empty)" ..
    then show ?thesis
      unfolding pattern_b_range_item_def rx_seq.simps
      by (rule range_header_groups)
         (simp_all add: rx_plus_def rx_star_def rx_lit_def ws_def dg_def dot_def item_no_def)
  qed
  with holds_number_int [of c 1] holds_number_int [of c 2] show ?thesis
    by (auto simp: range_ints_def)
qed

theorem range_header_endpoints_witness:
  "map_option range_ints (re_match pattern_a ''130 - 136 10.1 A Resolution authorizing a lease'')
     = Some (Inr (130, 136))
   \<and> (\<exists>c a b. re_match pattern_a ''130 - 136 10.1 A Resolution authorizing a lease'' = Some c \<and>
                range_ints c = Inr (a, b) \<and> 0 \<le> a \<and> a \<le> 999 \<and> 0 \<le> b \<and> b \<le> 999)"
  (is "?e \<and> ?x")
proof -
  have e: ?e
    by code_simp
  then obtain c where c: "re_match pattern_a ''130 - 136 10.1 A Resolution authorizing a lease'' = Some c"
    by auto
  from range_header_endpoints [OF disjI1 [OF c]] obtain a b where
    "range_ints c = Inr (a, b)" "0 \<le> a" "a \<le> 999" "0 \<le> b" "b \<le> 999"
    by blast
  with c have ?x by blast
  with e show ?thesis ..
qed

text \<open>The first number of a range may exceed the second: both patterns match a line
  with the range 13 - 10.\<close>

theorem range_header_unordered:
  "map_option range_ints (re_match pattern_a ''13 - 10 3.1 Title'') = Some (Inr (13, 10))
   \<and> map_option range_ints (re_match pattern_b_range_item ''13 - 10 3.1'') = Some (Inr (13, 10))"
  by code_simp

section \<open>Properties of the agenda parser\<close>

lemma gather_title_length:
  "gather_title n parts ls = (parts', r) \<Longrightarrow> length r \<le> length ls"
  by (induction ls arbitrary: parts) (fastforce simp: Let_def split: if_splits intro: le_SucI)+

lemma gather_title_plain_length:
  "gather_title_plain n parts ls = (parts', r) \<Longrightarrow> length r \<le> length ls"
  by (induction ls arbitrary: parts) (fastforce simp: Let_def split: if_splits intro: le_SucI)+

lemma find_file_number_length:
  "find_file_number k ls = Some (f, r) \<Longrightarrow> length r < length ls"
  by (induction k ls rule: find_file_number.induct) (auto split: option.splits)

lemma ranged_item_length:
  assumes "ranged_item n itype num ps pe seed after = (r, it)"
  shows "length r \<le> length after"
proof -
  obtain tp r1 where g: "gather_title n seed after = (tp, r1)"
    by (cases "gather_title n seed after")
  from gather_title_length [OF g] have 1: "length r1 \<le> length after" .
  show ?thesis
  proof (cases "find_file_number 3 r1")
    case None
    with assms g 1 show ?thesis by (simp add: ranged_item_def)
  next
    case (Some fr)
    then obtain f r2 where fr: "find_file_number 3 r1 = Some (f, r2)" by (cases fr) auto
    from find_file_number_length [OF fr] 1 assms g fr show ?thesis
      by (simp add: ranged_item_def)
  qed
qed

lemma ranged_item_fst: "length (fst (ranged_item n itype num ps pe seed after)) \<le> length after"
  using ranged_item_length [of n itype num ps pe seed after] by (metis prod.collapse)

lemma ranged_item_snd: "item_number (snd (ranged_item n itype num ps pe seed after)) = num"
  by (simp add: ranged_item_def Let_def split: prod.splits option.splits)

lemma plain_item_fst: "length (fst (plain_item n itype num seed after)) \<le> length after"
  by (auto simp: plain_item_def split: prod.splits dest: gather_title_plain_length)

lemma plain_item_snd: "item_number (snd (plain_item n itype num seed after)) = num"
  by (simp add: plain_item_def split: prod.splits)

lemma accepted_prefix: "accepted p g n l = Some c \<Longrightarrow> prefix_ok n (grp c g)"
  by (auto simp: accepted_def split: option.splits if_splits)

lemma plain_step_fst: "length (fst (plain_step n itype l after)) \<le> length after"
  by (simp add: plain_step_def plain_item_fst split: option.splits)

lemma plain_step_snd:
  "snd (plain_step n itype l after) = Some it \<Longrightarrow> prefix_ok n (item_number it)"
  by (auto simp: plain_step_def plain_item_snd accepted_prefix split: option.splits)

lemma map_prod_Some: "map_prod id Some p = (r, x) \<longleftrightarrow> r = fst p \<and> x = Some (snd p)"
  by (cases p) auto

lemma dropWhile_Cons_length: "dropWhile P xs = y # ys \<Longrightarrow> length ys < length xs"
  using length_dropWhile_le [of P xs] by simp

lemma range_step_props:
  assumes "range_step n itype mc l after = Inr (r, x)"
  shows "length r \<le> length after \<and> (\<forall>it. x = Some it \<longrightarrow> prefix_ok n (item_number it))"
proof -
  from assms obtain ps pe where ri: "range_ints mc = Inr (ps, pe)"
    by (auto simp: range_step_def split: sum.splits)
  show ?thesis
  proof (cases "dropWhile (\<lambda>x. py_strip x = []) after")
    case Nil
    with assms ri show ?thesis by (simp add: range_step_def)
  next
    case (Cons l2 after2)
    from dropWhile_Cons_length [OF Cons] have len: "length after2 \<le> length after" by simp
    show ?thesis
    proof (cases "accepted item_number_alone 1 n l2")
      case (Some mi)
      with assms ri Cons have rx: "r = fst (ranged_item n itype (grp mi 1) ps pe [] after2)"
          "x = Some (snd (ranged_item n itype (grp mi 1) ps pe [] after2))"
        by (auto simp: range_step_def map_prod_Some)
      from rx len ranged_item_fst [of n itype "grp mi 1" ps pe "[]" after2]
        ranged_item_snd [of n itype "grp mi 1" ps pe "[]" after2] accepted_prefix [OF Some]
      show ?thesis by auto
    next
      case None
      show ?thesis
      proof (cases "accepted item_with_title 1 n l2")
        case (Some mi2)
        let ?seed = "[py_strip (grp mi2 2)]"
        from assms ri Cons None Some have rx: "r = fst (ranged_item n itype (grp mi2 1) ps pe ?seed after2)"
            "x = Some (snd (ranged_item n itype (grp mi2 1) ps pe ?seed after2))"
          by (auto simp: range_step_def map_prod_Some)
        from rx len ranged_item_fst [of n itype "grp mi2 1" ps pe ?seed after2]
          ranged_item_snd [of n itype "grp mi2 1" ps pe ?seed after2] accepted_prefix [OF Some]
        show ?thesis by auto
      next
        case N2: None
        with assms ri Cons None have rx: "(r, x) = plain_step n itype l after2"
          by (auto simp: range_step_def map_prod_Some)
        from rx len plain_step_fst [of n itype l after2] plain_step_snd [of n itype l after2]
        show ?thesis by (metis fst_conv snd_conv le_trans)
      qed
    qed
  qed
qed

lemma item_step_props:
  assumes "item_step n itype l after = Inr (r, x)"
  shows "length r \<le> length after \<and> (\<forall>it. x = Some it \<longrightarrow> prefix_ok n (item_number it))"
proof (cases "accepted pattern_a 3 n l")
  case (Some ma)
  with assms obtain ps pe where ri: "range_ints ma = Inr (ps, pe)"
    by (auto simp: item_step_def split: sum.splits)
  let ?seed = "[py_strip (grp ma 4)]"
  from assms Some ri have rx: "r = fst (ranged_item n itype (grp ma 3) ps pe ?seed after)"
      "x = Some (snd (ranged_item n itype (grp ma 3) ps pe ?seed after))"
    by (auto simp: item_step_def map_prod_Some)
  from rx ranged_item_fst [of n itype "grp ma 3" ps pe ?seed after]
    ranged_item_snd [of n itype "grp ma 3" ps pe ?seed after] accepted_prefix [OF Some]
  show ?thesis by auto
next
  case None
  show ?thesis
  proof (cases "accepted pattern_b_range_item 3 n l")
    case (Some mb)
    with assms None obtain ps pe where ri: "range_ints mb = Inr (ps, pe)"
      by (auto simp: item_step_def split: sum.splits)
    from assms None Some ri have rx: "r = fst (ranged_item n itype (grp mb 3) ps pe [] after)"
        "x = Some (snd (ranged_item n itype (grp mb 3) ps pe [] after))"
      by (auto simp: item_step_def map_prod_Some)
    from rx ranged_item_fst [of n itype "grp mb 3" ps pe "[]" after]
      ranged_item_snd [of n itype "grp mb 3" ps pe "[]" after] accepted_prefix [OF Some]
    show ?thesis by auto
  next
    case N2: None
    show ?thesis
    proof (cases "re_match pattern_c_range l")
      case (Some mc)
      with assms None N2 have "range_step n itype mc l after = Inr (r, x)"
        by (simp add: item_step_def)
      then show ?thesis by (rule range_step_props)
    next
      case N3: None
      with assms None N2 have rx: "(r, x) = plain_step n itype l after"
        by (simp add: item_step_def)
      from rx plain_step_fst [of n itype l after] plain_step_snd [of n itype l after]
      show ?thesis by (metis fst_conv snd_conv)
    qed
  qed
qed


lemma py_str_no_dot: "CHR ''.'' \<notin> set (py_str n)"
proof -
  have "CHR ''.'' \<notin> set (str_nat k)" for k
    using str_nat_number [of k] by (auto simp: is_number_def list_all_iff dest: digit_not_sign)
  then show ?thesis by (simp add: py_str_def)
qed

lemma prefix_ok_section_prefix:
  assumes "prefix_ok n c"
  shows "section_prefix c = py_str n"
proof -
  let ?p = "py_str n @ ''.''"
  from assms have "take (length ?p) c = ?p"
    by (simp add: prefix_ok_def py_startswith_def)
  then have "c = ?p @ drop (length ?p) c"
    by (metis append_take_drop_id)
  then obtain r where c: "c = py_str n @ CHR ''.'' # r"
    by auto
  show ?thesis
    by (simp add: section_prefix_def c py_split_at_sep [OF py_str_no_dot])
qed

lemma agenda_step_length:
  assumes "agenda_step l after secs cur = Inr (r, secs', cur')"
  shows "length r \<le> length after"
proof (cases "re_match section_re l")
  case (Some sm)
  with assms show ?thesis
    by (auto simp: agenda_step_def Let_def split: sum.splits)
next
  case None
  show ?thesis
  proof (cases cur)
    case N: None
    with assms None show ?thesis by (simp add: agenda_step_def)
  next
    case (Some cs)
    with assms None obtain x where
      "item_step (sec_number cs) (item_type_from_section (sec_type cs)) l after = Inr (r, x)"
      by (auto simp: agenda_step_def split: sum.splits option.splits)
    from item_step_props [OF this] show ?thesis by simp
  qed
qed

lemma agenda_step_belong:
  assumes "agenda_step l after secs cur = Inr (r, secs', cur')"
    and "list_all items_belong secs"
    and "case cur of None \<Rightarrow> True | Some cs \<Rightarrow> items_belong cs"
  shows "list_all items_belong secs' \<and> (case cur' of None \<Rightarrow> True | Some cs \<Rightarrow> items_belong cs)"
proof (cases "re_match section_re l")
  case (Some sm)
  with assms(1) obtain n t where
    "secs' = close_section secs cur"
    "cur' = Some \<lparr>sec_number = n, sec_title = t, sec_type = classify_section n t, sec_items = []\<rparr>"
    by (auto simp: agenda_step_def Let_def split: sum.splits)
  with assms(2,3) show ?thesis
    by (auto simp: close_section_def items_belong_def split: option.splits)
next
  case None
  show ?thesis
  proof (cases cur)
    case N: None
    with assms None show ?thesis by (simp add: agenda_step_def)
  next
    case (Some cs)
    with assms(1) None obtain x where
      st: "item_step (sec_number cs) (item_type_from_section (sec_type cs)) l after = Inr (r, x)"
      and out: "secs' = secs"
        "cur' = Some (case x of None \<Rightarrow> cs | Some it \<Rightarrow> cs\<lparr>sec_items := sec_items cs @ [it]\<rparr>)"
      by (auto simp: agenda_step_def split: sum.splits option.splits)
    from item_step_props [OF st]
    have "\<forall>it. x = Some it \<longrightarrow> section_prefix (item_number it) = py_str (sec_number cs)"
      by (auto dest: prefix_ok_section_prefix)
    with assms(2,3) Some out show ?thesis
      by (auto simp: items_belong_def split: option.splits)
  qed
qed

lemma agenda_loop_returns:
  "length ls \<le> fuel \<Longrightarrow> \<exists>res. agenda_loop fuel ls secs cur = Some res"
proof (induction fuel arbitrary: ls secs cur)
  case 0
  then show ?case by simp
next
  case (Suc fuel)
  show ?case
  proof (cases ls)
    case Nil
    then show ?thesis by simp
  next
    case (Cons l after)
    show ?thesis
    proof (cases "agenda_step l after secs cur")
      case (Inl e)
      with Cons show ?thesis by simp
    next
      case (Inr x)
      then obtain r secs' cur' where st: "agenda_step l after secs cur = Inr (r, secs', cur')"
        by (cases x) auto
      from agenda_step_length [OF st] Suc.prems Cons have "length r \<le> fuel" by simp
      from Suc.IH [OF this, of secs' cur'] st Cons show ?thesis by simp
    qed
  qed
qed

lemma agenda_loop_belong:
  assumes "agenda_loop fuel ls secs cur = Some (Inr out)"
    and "list_all items_belong secs"
    and "case cur of None \<Rightarrow> True | Some cs \<Rightarrow> items_belong cs"
  shows "list_all items_belong out"
  using assms
proof (induction fuel ls secs cur rule: agenda_loop.induct)
  case (1 fuel sections current_section)
  then show ?case
    by (auto simp: close_section_def split: option.splits)
next
  case (2 l after sections current_section)
  then show ?case by simp
next
  case (3 fuel l after sections current_section)
  from "3.prems"(1) obtain r secs' cur' where
    st: "agenda_step l after sections current_section = Inr (r, secs', cur')"
    and rest: "agenda_loop fuel r secs' cur' = Some (Inr out)"
    by (auto split: sum.splits)
  from agenda_step_belong [OF st "3.prems"(2,3)] "3.IH" [OF st refl refl rest]
  show ?case by simp
qed

text \<open>
  Claim C3, for the agenda scan. An item is put into the section that is open when its
  header is read, and only if its item number starts with the number of that section
  and a dot. So in every section the scan returns, every item has the number of the
  section as its section prefix: a candidate with another prefix is never added to the
  open section.
\<close>

theorem agenda_items_belong_to_section:
  assumes "parse_agenda lines = Some (Inr sections)"
  shows "list_all items_belong sections"
proof (rule agenda_loop_belong)
  from assms show "agenda_loop (length lines) lines [] None = Some (Inr sections)"
    by (simp add: parse_agenda_def)
qed simp_all

theorem agenda_items_belong_to_section_witness:
  "parse_agenda [''3. ORDINANCES'', ''3.1 An Ordinance vacating a strip'', ''10.5 feet wide.'',
                 ''3.2 Next'']
     = Some (Inr [\<lparr>sec_number = 3, sec_title = ''ORDINANCES'', sec_type = ''other'',
                    sec_items =
                      [\<lparr>item_number = ''3.1'',
                        title = ''An Ordinance vacating a strip 10.5 feet wide.'',
                        page_start = None, page_end = None, file_number = None,
                        item_type = ''other''\<rparr>,
                       \<lparr>item_number = ''3.2'', title = ''Next'', page_start = None,
                        page_end = None, file_number = None, item_type = ''other''\<rparr>]\<rparr>])
   \<and> section_prefix ''3.1'' = py_str 3 \<and> section_prefix ''3.2'' = py_str 3"
  (is "?p = Some (Inr [?s]) \<and> _")
proof -
  have e: "?p = Some (Inr [?s])"
    by code_simp
  from agenda_items_belong_to_section [OF e] have "items_belong ?s"
    by simp
  with e show ?thesis
    by (simp add: items_belong_def)
qed

text \<open>
  Claim C7. The category of a section depends on its title only: for every title and
  any two section numbers \<open>classify_section\<close> gives the same category.
\<close>

theorem classify_section_title_only:
  "classify_section n1 t = classify_section n2 t"
  by (simp add: classify_section_def)

text \<open>
  Claim C6. On the lines \<^verbatim>\<open>3. ORDINANCES (FIRST READING)\<close>, \<^verbatim>\<open>10 - 13\<close>, \<^verbatim>\<open>3.1\<close>,
  \<^verbatim>\<open>An Ordinance amending the zoning map.\<close>, \<^verbatim>\<open>Ord. 26-006\<close> the agenda scan returns one
  section, number 3 of type ordinance_first_reading, with the one item 3.1 of the
  scenario: its title, the pages 10 to 13, the file number and the type ordinance.
\<close>

theorem agenda_scenario:
  "parse_agenda [''3. ORDINANCES (FIRST READING)'', ''10 - 13'', ''3.1'',
                 ''An Ordinance amending the zoning map.'', ''Ord. 26-006'']
   = Some (Inr [\<lparr>sec_number = 3, sec_title = ''ORDINANCES (FIRST READING)'',
                  sec_type = ''ordinance_first_reading'',
                  sec_items = [\<lparr>item_number = ''3.1'',
                                title = ''An Ordinance amending the zoning map.'',
                                page_start = Some 10, page_end = Some 13,
                                file_number = Some ''Ord. 26-006'',
                                item_type = ''ordinance''\<rparr>]\<rparr>])"
  by code_simp

section \<open>Properties of the vote tally and the vote breakdown\<close>

lemma tally_strip:
  assumes "is_number da" and "is_number dz"
  shows "py_strip (da @ m @ dz) = da @ m @ dz"
proof (rule py_strip_id)
  from assms show "da @ m @ dz \<noteq> []"
    by (simp add: is_number_def)
  from assms(1) show "\<not> is_space (hd (da @ m @ dz))"
    by (cases da) (auto simp: is_number_def digit_not_space)
  from assms(2) have "last (da @ m @ dz) = last dz" and "is_digit (last dz)"
    by (auto simp: is_number_def list_all_iff)
  then show "\<not> is_space (last (da @ m @ dz))"
    by (simp add: digit_not_space)
qed

lemma tally_split_two:
  assumes "is_number da" and "is_number dn"
  shows "py_split CHR ''-'' (py_strip (da @ ''-'' @ dn)) = [da, dn]"
  using assms tally_strip [OF assms, of "''-''"]
  by (simp add: py_split_at_sep py_split_no_sep number_no_hyphen)

lemma parse_vote_tally_two:
  assumes "is_number da" and "is_number dn"
    and "length da \<le> int_max_str_digits" and "length dn \<le> int_max_str_digits"
  shows "parse_vote_tally (da @ ''-'' @ dn) = Inr (dec_value da, dec_value dn, 0)"
  using tally_split_two [OF assms(1,2)] assms
  by (simp add: parse_vote_tally_def tally_part_def py_int_number)

lemma parse_vote_tally_three:
  assumes "is_number da" and "is_number dn" and "is_number db"
    and "length da \<le> int_max_str_digits" and "length dn \<le> int_max_str_digits"
    and "length db \<le> int_max_str_digits"
  shows "parse_vote_tally (da @ ''-'' @ dn @ ''-'' @ db)
           = Inr (dec_value da, dec_value dn, dec_value db)"
proof -
  have "py_split CHR ''-'' (da @ ''-'' @ dn @ ''-'' @ db) = [da, dn, db]"
    using assms by (simp add: py_split_at_sep py_split_no_sep number_no_hyphen)
  with tally_strip [OF assms(1) assms(3), of "''-'' @ dn @ ''-''"] assms show ?thesis
    by (simp add: parse_vote_tally_def tally_part_def py_int_number)
qed

lemma parse_vote_tally_too_long:
  assumes "is_number da" and "is_number dn" and "int_max_str_digits < length da"
  shows "parse_vote_tally (da @ ''-'' @ dn) = Inl ValueError"
  using tally_split_two [OF assms(1,2)] assms
  by (simp add: parse_vote_tally_def tally_part_def py_int_too_long)

text \<open>
  Claim C5, as the code has it. A valid tally is made of two or three numbers, each a
  string of one or more decimal digits, with hyphens between them. \<^verbatim>\<open>int\<close> converts a
  string of at most 4300 digits. On \<^verbatim>\<open>A-N\<close> with such numbers \<open>parse_vote_tally\<close> returns
  the numbers A and N and 0 for the abstentions; on \<^verbatim>\<open>A-N-B\<close> it returns the numbers
  A, N and B.
\<close>

theorem parse_vote_tally_recovers:
  assumes "is_number da" and "is_number dn" and "is_number db"
    and "length da \<le> int_max_str_digits" and "length dn \<le> int_max_str_digits"
    and "length db \<le> int_max_str_digits"
  shows "parse_vote_tally (da @ ''-'' @ dn) = Inr (dec_value da, dec_value dn, 0) \<and>
         parse_vote_tally (da @ ''-'' @ dn @ ''-'' @ db)
           = Inr (dec_value da, dec_value dn, dec_value db)"
  using parse_vote_tally_two [OF assms(1,2,4,5)] parse_vote_tally_three [OF assms]
  by simp

theorem parse_vote_tally_recovers_witness:
  "is_number ''7'' \<and> is_number ''0'' \<and> is_number ''2'' \<and>
   parse_vote_tally ''7-0'' = Inr (7, 0, 0) \<and> parse_vote_tally ''7-0-2'' = Inr (7, 0, 2)"
proof -
  have n: "is_number ''7''" "is_number ''0''" "is_number ''2''"
    by (simp_all add: is_number_def is_digit_def)
  have l: "length ''7'' \<le> int_max_str_digits" "length ''0'' \<le> int_max_str_digits"
    "length ''2'' \<le> int_max_str_digits"
    by (simp_all add: int_max_str_digits_def)
  have v: "dec_value ''7'' = 7" "dec_value ''0'' = 0" "dec_value ''2'' = 2"
    by (simp_all add: dec_value_def digit_val_def)
  from parse_vote_tally_recovers [OF n l] v n show ?thesis
    by simp
qed

text \<open>A tally whose first number has 4301 digits is a valid tally string, and \<^verbatim>\<open>int\<close>
  raises on it.\<close>

theorem parse_vote_tally_long_number:
  "is_number (replicate 4301 CHR ''9'') \<and> is_number ''0'' \<and>
   parse_vote_tally (replicate 4301 CHR ''9'' @ ''-'' @ ''0'') = Inl ValueError"
proof -
  have a: "is_number (replicate 4301 CHR ''9'')"
    by (simp add: is_number_def list_all_iff is_digit_def)
  have b: "is_number ''0''"
    by (simp add: is_number_def is_digit_def)
  have c: "int_max_str_digits < length (replicate 4301 CHR ''9'')"
    by (simp add: int_max_str_digits_def)
  from a b parse_vote_tally_too_long [OF a b c] show ?thesis
    by (intro conjI)
qed

lemma int_digits_nonneg:
  "int_digits acc xs = Some v \<Longrightarrow> 0 \<le> acc \<Longrightarrow> 0 \<le> v"
proof (induction acc xs arbitrary: v rule: int_digits.induct)
  case (1 acc)
  then show ?case by simp
next
  case (2 acc x)
  then show ?case
    using digit_val_range [of x] by (auto split: if_splits)
next
  case (3 acc x y ys)
  show ?case
  proof (cases "is_digit x")
    case True
    with 3 digit_val_range [of x] show ?thesis by simp
  next
    case False
    with "3.prems" have u: "x = CHR ''_'' \<and> is_digit y"
      and r: "int_digits (10 * acc + digit_val y) ys = Some v"
      by (auto split: if_splits)
    from u "3.prems"(2) digit_val_range [of y] have "0 \<le> 10 * acc + digit_val y"
      by simp
    with "3.IH"(2) [OF False u r] show ?thesis .
  qed
qed

lemma set_int_strip: "set (int_strip s) \<subseteq> set s"
proof -
  have "set (rev (dropWhile is_int_space (rev (dropWhile is_int_space s))))
          \<subseteq> set (dropWhile is_int_space s)"
    using set_dropWhileD [of _ is_int_space "rev (dropWhile is_int_space s)"] by auto
  also have "\<dots> \<subseteq> set s"
    using set_dropWhileD [of _ is_int_space s] by auto
  finally show ?thesis
    by (simp add: int_strip_def)
qed

lemma py_int_nonneg:
  assumes "py_int s = Inr v" and "CHR ''-'' \<notin> set s"
  shows "0 \<le> v"
proof -
  let ?t = "int_strip s"
  from assms(2) set_int_strip [of s] have nt: "CHR ''-'' \<notin> set ?t" by blast
  then have neg: "(case ?t of [] \<Rightarrow> False | x # _ \<Rightarrow> x = CHR ''-'') = False"
    by (cases ?t) auto
  let ?d = "(case ?t of [] \<Rightarrow> [] | x # xs \<Rightarrow> if x = CHR ''-'' \<or> x = CHR ''+'' then xs else ?t)"
  from assms(1) neg obtain x xs where d: "?d = x # xs" and x: "is_digit x"
      and r: "int_digits (digit_val x) xs = Some v"
    by (cases ?d) (auto simp: py_int_def Let_def split: if_splits option.splits)
  from int_digits_nonneg [OF r] digit_val_range [OF x] show ?thesis by simp
qed

lemma tally_part_nonneg:
  assumes "tally_part (py_split CHR ''-'' s) k = Inr v"
  shows "0 \<le> v"
proof (cases "k < length (py_split CHR ''-'' s)")
  case True
  then have "py_split CHR ''-'' s ! k \<in> set (py_split CHR ''-'' s)" by simp
  then have "CHR ''-'' \<notin> set (py_split CHR ''-'' s ! k)"
    by (rule py_split_parts_no_sep)
  with assms True show ?thesis
    by (auto simp: tally_part_def intro: py_int_nonneg)
next
  case False
  with assms show ?thesis by (simp add: tally_part_def)
qed

lemma parse_vote_tally_nonneg:
  assumes "parse_vote_tally t = Inr (a, n, b)"
  shows "0 \<le> a \<and> 0 \<le> n \<and> 0 \<le> b"
  using assms
  by (auto simp: parse_vote_tally_def Let_def split: sum.splits dest: tally_part_nonneg)

lemma slice_lengths: "length (slice_to k xs) + length (slice_from k xs) = length xs"
  by (auto simp: slice_to_def slice_from_def)

lemma slice_to_length: "0 \<le> k \<Longrightarrow> k \<le> int (length xs) \<Longrightarrow> int (length (slice_to k xs)) = k"
  by (simp add: slice_to_def)

lemma named_complement:
  assumes "distinct roster" and "distinct ns" and "set ns \<subseteq> set roster"
  shows "length (filter (\<lambda>m. m \<notin> set ns) roster) + length ns = length roster"
proof -
  have "length (filter (\<lambda>m. m \<in> set ns) roster) = card ({m. m \<in> set ns} \<inter> set roster)"
    using assms(1) by (rule distinct_length_filter)
  also from assms(3) have "{m. m \<in> set ns} \<inter> set roster = set ns" by auto
  also from assms(2) have "card (set ns) = length ns" by (rule distinct_card)
  finally have "length (filter (\<lambda>m. m \<in> set ns) roster) = length ns" .
  with sum_length_filter_compl [of "\<lambda>m. m \<in> set ns" roster] show ?thesis by simp
qed


lemma build_vote_breakdown_shape:
  assumes "parse_vote_tally tally_str = Inr (a, n, b)"
  shows "\<exists>v. build_vote_breakdown res tally_str detail roster = Inr v \<and>
             nay v = named_nay detail roster \<and> abstain v = named_abstain detail roster \<and>
             aye v @ absent v = filter (\<lambda>m. m \<notin> set (nay v) \<union> set (abstain v)) roster \<and>
             ((aye v = filter (\<lambda>m. m \<notin> set (nay v) \<union> set (abstain v)) roster \<and>
               \<not> (a + n + b < int (length roster) \<and>
                  a < int (length (filter (\<lambda>m. m \<notin> set (nay v) \<union> set (abstain v)) roster)))) \<or>
              (a + n + b < int (length roster) \<and> int (length (aye v)) = a))"
proof -
  define rem where "rem = filter (\<lambda>m. m \<notin> set (named_nay detail roster)
                                          \<union> set (named_abstain detail roster)) roster"
  from parse_vote_tally_nonneg [OF assms] have a: "0 \<le> a" by simp
  show ?thesis
  proof (cases "int (length roster) - (a + n + b) > 0 \<and> int (length rem) > a")
    case True
    have "build_vote_breakdown res tally_str detail roster =
            Inr \<lparr>aye = slice_to a rem, nay = named_nay detail roster,
                 abstain = named_abstain detail roster, absent = slice_from a rem\<rparr>"
      unfolding build_vote_breakdown_def Let_def assms sum.case prod.case
      unfolding rem_def [symmetric]
      using True by auto
    moreover have "slice_to a rem @ slice_from a rem = rem"
      by (simp add: slice_to_def slice_from_def)
    moreover have "int (length (slice_to a rem)) = a"
      using True a by (simp add: slice_to_length)
    ultimately show ?thesis
      using True by (simp add: rem_def)
  next
    case False
    have "build_vote_breakdown res tally_str detail roster =
            Inr \<lparr>aye = rem, nay = named_nay detail roster,
                 abstain = named_abstain detail roster, absent = []\<rparr>"
      unfolding build_vote_breakdown_def Let_def assms sum.case prod.case
      unfolding rem_def [symmetric]
      using False by auto
    with False show ?thesis
      by (auto simp: rem_def)
  qed
qed

text \<open>
  Claim C2, as the code has it. The claim fails where the vote detail names somebody who
  is not on the roster (the name is then kept as written) or names a member twice: the
  named voters are listed beside the whole roster. What holds, for a tally that
  \<open>parse_vote_tally\<close> accepts: the nay list is the list of the members the detail names as
  nay voters and the abstain list the list of those it names as abstainers, and the aye
  and absent lists together are the other roster members in roster order. For a roster
  without repeated names and named members that are distinct members of the roster, the
  four lists together have as many names as the roster. The assignment succeeds when
  moreover the detail names as many nay voters and abstainers as the tally counts and
  the tally does not exceed the roster: then the three lists aye, nay and abstain are as
  long as the tally says.
\<close>

theorem breakdown_covers_roster:
  assumes "parse_vote_tally tally_str = Inr (a, n, b)"
    and "distinct roster"
    and "distinct (named_nay detail roster @ named_abstain detail roster)"
    and "set (named_nay detail roster @ named_abstain detail roster) \<subseteq> set roster"
  shows "\<exists>v. build_vote_breakdown res tally_str detail roster = Inr v \<and>
             nay v = named_nay detail roster \<and> abstain v = named_abstain detail roster \<and>
             aye v @ absent v = filter (\<lambda>m. m \<notin> set (nay v) \<union> set (abstain v)) roster \<and>
             breakdown_size v = length roster \<and>
             (int (length (named_nay detail roster)) = n \<and>
              int (length (named_abstain detail roster)) = b \<and>
              a + n + b \<le> int (length roster) \<longrightarrow>
                int (length (aye v)) = a \<and> int (length (nay v)) = n \<and>
                int (length (abstain v)) = b)"
proof -
  let ?nn = "named_nay detail roster" and ?na = "named_abstain detail roster"
  from build_vote_breakdown_shape [OF assms(1), of res detail roster]
  obtain v where v: "build_vote_breakdown res tally_str detail roster = Inr v"
    and nay: "nay v = ?nn" and abst: "abstain v = ?na"
    and rest: "aye v @ absent v = filter (\<lambda>m. m \<notin> set (nay v) \<union> set (abstain v)) roster"
    and ayes: "(aye v = filter (\<lambda>m. m \<notin> set (nay v) \<union> set (abstain v)) roster \<and>
                \<not> (a + n + b < int (length roster) \<and>
                   a < int (length (filter (\<lambda>m. m \<notin> set (nay v) \<union> set (abstain v)) roster)))) \<or>
               (a + n + b < int (length roster) \<and> int (length (aye v)) = a)"
    by blast
  have "length (filter (\<lambda>m. m \<notin> set (?nn @ ?na)) roster) + length (?nn @ ?na) = length roster"
    using assms(2,3,4) by (rule named_complement)
  then have cnt: "length (filter (\<lambda>m. m \<notin> set (nay v) \<union> set (abstain v)) roster)
                    + length ?nn + length ?na = length roster"
    by (simp add: nay abst)
  from rest have "length (aye v) + length (absent v)
                    = length (filter (\<lambda>m. m \<notin> set (nay v) \<union> set (abstain v)) roster)"
    by (metis length_append)
  with cnt have size: "breakdown_size v = length roster"
    by (simp add: breakdown_size_def nay abst)
  have "int (length (aye v)) = a"
    if "int (length ?nn) = n" "int (length ?na) = b" "a + n + b \<le> int (length roster)"
    using ayes cnt that by auto
  with v nay abst rest size show ?thesis
    by auto
qed

theorem breakdown_covers_roster_witness:
  "build_vote_breakdown ''Approved'' ''8-1'' ''Councilperson Lavarro: nay'' DEFAULT_MEMBERS
     = Inr \<lparr>aye = [''Ridley'', ''Griffin'', ''Singh'', ''Brooks'', ''Zuppa'', ''Ephros'',
                    ''Little'', ''Gilmore''],
            nay = [''Lavarro''], abstain = [], absent = []\<rparr>
   \<and> named_nay ''Councilperson Lavarro: nay'' DEFAULT_MEMBERS = [''Lavarro'']
   \<and> named_abstain ''Councilperson Lavarro: nay'' DEFAULT_MEMBERS = []
   \<and> breakdown_size \<lparr>aye = [''Ridley'', ''Griffin'', ''Singh'', ''Brooks'', ''Zuppa'', ''Ephros'',
                             ''Little'', ''Gilmore''],
                     nay = [''Lavarro''], abstain = [], absent = []\<rparr> = length DEFAULT_MEMBERS
   \<and> length [''Ridley'', ''Griffin'', ''Singh'', ''Brooks'', ''Zuppa'', ''Ephros'', ''Little'',
              ''Gilmore''] = 8"
  (is "?b = Inr ?x \<and> ?nn = _ \<and> ?na = _ \<and> _ \<and> _")
proof -
  have h1: "parse_vote_tally ''8-1'' = Inr (8, 1, 0)"
    by code_simp
  have h2: "distinct DEFAULT_MEMBERS"
    by code_simp
  have nn: "?nn = [''Lavarro'']" and na: "?na = []"
    by code_simp+
  have h3: "distinct (?nn @ ?na)"
    unfolding nn na by simp
  have h4: "set (?nn @ ?na) \<subseteq> set DEFAULT_MEMBERS"
    unfolding nn na by (simp add: DEFAULT_MEMBERS_def)
  have e: "?b = Inr ?x"
    by code_simp
  have len: "length DEFAULT_MEMBERS = 9"
    by (simp add: DEFAULT_MEMBERS_def)
  from breakdown_covers_roster [OF h1 h2 h3 h4, of "''Approved''"]
  obtain v where v: "?b = Inr v" "breakdown_size v = length DEFAULT_MEMBERS"
      "int (length ?nn) = 1 \<and> int (length ?na) = 0 \<and> 8 + 1 + 0 \<le> int (length DEFAULT_MEMBERS)
         \<longrightarrow> int (length (aye v)) = 8 \<and> int (length (nay v)) = 1 \<and> int (length (abstain v)) = 0"
    by blast
  from v(1) e have vx: "v = ?x" by simp
  from v(3) nn na len have "int (length (aye v)) = 8" by simp
  with v(2) vx e nn na show ?thesis by simp
qed

text \<open>The tally 9-0 with the detail \<^verbatim>\<open>Councilperson Smith: nay\<close> against the default roster
  of nine: Smith is listed as nay beside nine ayes, ten names in all.\<close>

theorem breakdown_exceeds_roster:
  "map_sum id breakdown_size
     (build_vote_breakdown ''Approved'' ''9-0'' ''Councilperson Smith: nay'' DEFAULT_MEMBERS)
     = Inr 10
   \<and> build_vote_breakdown ''Approved'' ''9-0'' ''Councilperson Smith: nay'' DEFAULT_MEMBERS
     = Inr \<lparr>aye = DEFAULT_MEMBERS, nay = [''Smith''], abstain = [], absent = []\<rparr>
   \<and> length DEFAULT_MEMBERS = 9"
  by code_simp

section \<open>Properties of the minutes parser\<close>

lemma gather_item_lines_length:
  "gather_item_lines acc ls = (il, r) \<Longrightarrow> length r \<le> length ls"
  by (induction ls arbitrary: acc) (fastforce split: if_splits intro: le_SucI)+

lemma minutes_step_length:
  assumes "minutes_step roster l after items cs = Inr (r, items', cs')"
  shows "length r \<le> length after"
proof (cases "section_line l after")
  case (Some sm)
  with assms show ?thesis
    by (auto simp: minutes_step_def split: sum.splits)
next
  case None
  show ?thesis
  proof (cases "re_match item_re l")
    case N: None
    with assms None show ?thesis by (simp add: minutes_step_def)
  next
    case (Some im)
    show ?thesis
    proof (cases "section_prefix (grp im 1) \<notin> set [''3'', ''4'', ''9'', ''10'']")
      case True
      with assms None Some show ?thesis by (simp add: minutes_step_def Let_def)
    next
      case False
      obtain il r1 where g: "gather_item_lines [l] after = (il, r1)"
        by (cases "gather_item_lines [l] after")
      with assms None Some False have "r = r1"
        by (auto simp: minutes_step_def Let_def split: sum.splits)
      with gather_item_lines_length [OF g] show ?thesis by simp
    qed
  qed
qed

lemma minutes_step_emits:
  assumes "minutes_step roster l after items cs = Inr (r, items', cs')"
  shows "items' = items \<or>
         (\<exists>im it. re_match item_re l = Some im \<and>
                  section_prefix (grp im 1) \<in> voted_sections \<and>
                  build_item roster (grp im 1) (section_prefix (grp im 1))
                    (fst (gather_item_lines [l] after)) = Inr it \<and>
                  items' = items @ [it])"
proof (cases "section_line l after")
  case (Some sm)
  with assms show ?thesis
    by (auto simp: minutes_step_def split: sum.splits)
next
  case None
  show ?thesis
  proof (cases "re_match item_re l")
    case N: None
    with assms None show ?thesis by (simp add: minutes_step_def)
  next
    case (Some im)
    show ?thesis
    proof (cases "section_prefix (grp im 1) \<notin> set [''3'', ''4'', ''9'', ''10'']")
      case True
      with assms None Some show ?thesis by (simp add: minutes_step_def Let_def)
    next
      case False
      then have v: "section_prefix (grp im 1) \<in> voted_sections"
        by (simp add: voted_sections_def)
      obtain il r1 where g: "gather_item_lines [l] after = (il, r1)"
        by (cases "gather_item_lines [l] after")
      with assms None Some False obtain it where
        "build_item roster (grp im 1) (section_prefix (grp im 1)) il = Inr it" "items' = items @ [it]"
        by (auto simp: minutes_step_def Let_def split: sum.splits)
      with v g Some show ?thesis by auto
    qed
  qed
qed

lemma minutes_step_items:
  assumes "minutes_step roster l after items cs = Inr (r, items', cs')"
  shows "items' = items \<or>
         (\<exists>num il it. items' = items @ [it] \<and> section_prefix num \<in> voted_sections \<and>
                      build_item roster num (section_prefix num) il = Inr it)"
  using minutes_step_emits [OF assms] by blast

lemma minutes_loop_returns:
  "length ls \<le> fuel \<Longrightarrow> \<exists>res. minutes_loop fuel roster ls items cs = Some res"
proof (induction fuel arbitrary: ls items cs)
  case 0
  then show ?case by simp
next
  case (Suc fuel)
  show ?case
  proof (cases ls)
    case Nil
    then show ?thesis by simp
  next
    case (Cons l after)
    show ?thesis
    proof (cases "minutes_step roster l after items cs")
      case (Inl e)
      with Cons show ?thesis by simp
    next
      case (Inr x)
      then obtain r items' cs' where st: "minutes_step roster l after items cs = Inr (r, items', cs')"
        by (cases x) auto
      from minutes_step_length [OF st] Suc.prems Cons have "length r \<le> fuel" by simp
      from Suc.IH [OF this, of items' cs'] st Cons show ?thesis by simp
    qed
  qed
qed

lemma minutes_loop_all:
  assumes "minutes_loop fuel roster ls items cs = Some (Inr out)"
    and "list_all P items"
    and "\<And>num il it. section_prefix num \<in> voted_sections \<Longrightarrow>
           build_item roster num (section_prefix num) il = Inr it \<Longrightarrow> P it"
  shows "list_all P out"
  using assms
proof (induction fuel roster ls items cs rule: minutes_loop.induct)
  case (1 fuel roster items current_section)
  then show ?case by simp
next
  case (2 roster l after items current_section)
  then show ?case by simp
next
  case (3 fuel roster l after items current_section)
  from "3.prems"(1) obtain r items' cs' where
    st: "minutes_step roster l after items current_section = Inr (r, items', cs')"
    and rest: "minutes_loop fuel roster r items' cs' = Some (Inr out)"
    by (auto split: sum.splits)
  from minutes_step_items [OF st] have "list_all P items'"
  proof (elim disjE exE conjE)
    assume "items' = items"
    with "3.prems"(2) show ?thesis by simp
  next
    fix num il it
    assume a: "items' = items @ [it]" "section_prefix num \<in> voted_sections"
      "build_item roster num (section_prefix num) il = Inr it"
    from "3.prems"(3) [OF a(2) a(3)] have "P it" .
    with a(1) "3.prems"(2) show ?thesis by simp
  qed
  from "3.IH" [OF st refl refl rest this "3.prems"(3)] show ?case by simp
qed

lemma build_item_number:
  "build_item roster num sp il = Inr it \<Longrightarrow> m_item_number it = num"
  by (auto simp: build_item_def Let_def split: sum.splits)

lemma build_item_fields:
  assumes "build_item roster num sp il = Inr it"
  shows "\<exists>votes. item_votes (vote_result (scan_item sp il)) (vote_tally (scan_item sp il))
                    (collected_detail (scan_item sp il)) roster = Inr votes \<and>
                 m_votes it = votes \<and>
                 m_vote_tally it = vote_tally (scan_item sp il) \<and>
                 m_result it = (if truthy (vote_result (scan_item sp il))
                                then Some (py_lower (the (vote_result (scan_item sp il))))
                                else None) \<and>
                 m_vote_detail it = (if collected_detail (scan_item sp il) \<noteq> []
                                     then Some (collected_detail (scan_item sp il)) else None)"
  using assms unfolding build_item_def Let_def
  by (auto split: sum.splits)

lemma build_item_detail_rule:
  assumes "build_item roster num sp il = Inr it"
  shows "detail_rule (scan_item sp il) it"
  using build_item_fields [OF assms] by (auto simp: detail_rule_def)

lemma build_item_votes_rule:
  assumes "build_item roster num sp il = Inr it"
  shows "votes_rule it"
  using build_item_fields [OF assms]
  by (auto simp: votes_rule_def item_votes_def truthy_def split: if_splits sum.splits)

text \<open>
  Claim C8. Every item the minutes scan returns has an item number whose section
  prefix is 3, 4, 9 or 10: a line with an item number of another section adds no record.
\<close>

theorem minutes_items_from_voted_sections:
  assumes "parse_minutes roster lines = Some (Inr items)"
  shows "list_all (\<lambda>it. section_prefix (m_item_number it) \<in> voted_sections) items"
proof (rule minutes_loop_all)
  from assms show "minutes_loop (length lines) roster lines [] None = Some (Inr items)"
    by (simp add: parse_minutes_def)
next
  show "list_all (\<lambda>it. section_prefix (m_item_number it) \<in> voted_sections) []" by simp
next
  fix num il it
  assume "section_prefix num \<in> voted_sections"
    and "build_item roster num (section_prefix num) il = Inr it"
  then show "section_prefix (m_item_number it) \<in> voted_sections"
    by (simp add: build_item_number)
qed

theorem minutes_items_from_voted_sections_witness:
  "parse_minutes DEFAULT_MEMBERS
     [''5.1 A letter from the clerk'', ''10.1 A Resolution honoring a retiree.'', ''Approved 9-0'',
      ''11.1 Deferred matter'']
     = Some (Inr [\<lparr>m_item_number = ''10.1'', m_title = Some ''A Resolution honoring a retiree.'',
                    m_file_number = None, m_result = Some ''approved'',
                    m_vote_tally = Some ''9-0'',
                    m_votes = Some \<lparr>aye = DEFAULT_MEMBERS, nay = [], abstain = [], absent = []\<rparr>,
                    m_vote_detail = None\<rparr>])
   \<and> section_prefix ''10.1'' \<in> voted_sections"
  (is "?p = Some (Inr [?x]) \<and> _")
proof -
  have e: "?p = Some (Inr [?x])"
    by code_simp
  from minutes_items_from_voted_sections [OF e] e show ?thesis
    by simp
qed

text \<open>
  Claim C1, as the code has it. For an item whose result is withdrawn and for which no
  tally was found the record does carry the field \<^verbatim>\<open>votes\<close>: a breakdown of four empty
  lists. The field is left out for the other items without a tally (no result, or a
  result other than withdrawn). The field \<^verbatim>\<open>vote_detail\<close> is left out when the collected
  detail text is empty, and is that text otherwise. The statement has three parts: every
  record of the result obeys the rule of the votes and is built from the lines of an
  item; an iteration that adds a record adds the one built from the lines it gathered;
  and a record built from lines has the tally, the result and the detail those lines
  gave.
\<close>

theorem votes_field_rule:
  "(parse_minutes roster lines = Some (Inr items) \<longrightarrow>
      list_all (\<lambda>it. votes_rule it \<and>
                      (\<exists>num il. build_item roster num (section_prefix num) il = Inr it \<and>
                                detail_rule (scan_item (section_prefix num) il) it)) items) \<and>
   (minutes_step roster l after its cs = Inr (r, its', cs') \<longrightarrow>
      its' = its \<or>
      (\<exists>im it. re_match item_re l = Some im \<and>
               build_item roster (grp im 1) (section_prefix (grp im 1))
                 (fst (gather_item_lines [l] after)) = Inr it \<and>
               its' = its @ [it])) \<and>
   (build_item roster num' sp il' = Inr it' \<longrightarrow>
      votes_rule it' \<and> detail_rule (scan_item sp il') it')"
proof (intro conjI impI)
  assume p: "parse_minutes roster lines = Some (Inr items)"
  show "list_all (\<lambda>it. votes_rule it \<and>
                      (\<exists>num il. build_item roster num (section_prefix num) il = Inr it \<and>
                                detail_rule (scan_item (section_prefix num) il) it)) items"
  proof (rule minutes_loop_all)
    from p show "minutes_loop (length lines) roster lines [] None = Some (Inr items)"
      by (simp add: parse_minutes_def)
  next
    show "list_all (\<lambda>it. votes_rule it \<and>
                      (\<exists>num il. build_item roster num (section_prefix num) il = Inr it \<and>
                                detail_rule (scan_item (section_prefix num) il) it)) []"
      by simp
  next
    fix num il it
    assume b: "build_item roster num (section_prefix num) il = Inr it"
    from build_item_votes_rule [OF b] build_item_detail_rule [OF b] b
    show "votes_rule it \<and>
          (\<exists>num il. build_item roster num (section_prefix num) il = Inr it \<and>
                    detail_rule (scan_item (section_prefix num) il) it)"
      by blast
  qed
next
  assume "minutes_step roster l after its cs = Inr (r, its', cs')"
  from minutes_step_emits [OF this]
  show "its' = its \<or>
        (\<exists>im it. re_match item_re l = Some im \<and>
                 build_item roster (grp im 1) (section_prefix (grp im 1))
                   (fst (gather_item_lines [l] after)) = Inr it \<and>
                 its' = its @ [it])"
    by blast
next
  assume "build_item roster num' sp il' = Inr it'"
  then show "votes_rule it'" by (rule build_item_votes_rule)
next
  assume "build_item roster num' sp il' = Inr it'"
  then show "detail_rule (scan_item sp il') it'" by (rule build_item_detail_rule)
qed

theorem votes_field_rule_witness:
  "parse_minutes DEFAULT_MEMBERS
     [''3.2 An Ordinance.'', ''Tabled'', ''10.1 A Resolution honoring a retiree.'', ''Withdrawn'',
      ''10.2 Another one.'', ''Approved 7-0-2  Councilperson Singh and'',
      ''Councilperson Little: abstain'']
     = Some (Inr [\<lparr>m_item_number = ''3.2'', m_title = Some ''An Ordinance.'',
                    m_file_number = None, m_result = Some ''tabled'', m_vote_tally = None,
                    m_votes = None, m_vote_detail = None\<rparr>,
                  \<lparr>m_item_number = ''10.1'', m_title = Some ''A Resolution honoring a retiree.'',
                    m_file_number = None, m_result = Some ''withdrawn'', m_vote_tally = None,
                    m_votes = Some \<lparr>aye = [], nay = [], abstain = [], absent = []\<rparr>,
                    m_vote_detail = None\<rparr>,
                  \<lparr>m_item_number = ''10.2'', m_title = Some ''Another one.'',
                    m_file_number = None, m_result = Some ''approved'',
                    m_vote_tally = Some ''7-0-2'',
                    m_votes = Some \<lparr>aye = [''Ridley'', ''Lavarro'', ''Griffin'', ''Brooks'',
                                         ''Zuppa'', ''Ephros'', ''Gilmore''],
                                  nay = [], abstain = [''Singh'', ''Little''], absent = []\<rparr>,
                    m_vote_detail =
                      Some ''Councilperson Singh and Councilperson Little: abstain''\<rparr>])
   \<and> votes_rule \<lparr>m_item_number = ''10.1'', m_title = Some ''A Resolution honoring a retiree.'',
                   m_file_number = None, m_result = Some ''withdrawn'', m_vote_tally = None,
                   m_votes = Some \<lparr>aye = [], nay = [], abstain = [], absent = []\<rparr>,
                   m_vote_detail = None\<rparr>
   \<and> build_item DEFAULT_MEMBERS ''10.1'' ''10'' [''10.1 A Resolution honoring a retiree.'', ''Withdrawn'']
     = Inr \<lparr>m_item_number = ''10.1'', m_title = Some ''A Resolution honoring a retiree.'',
            m_file_number = None, m_result = Some ''withdrawn'', m_vote_tally = None,
            m_votes = Some \<lparr>aye = [], nay = [], abstain = [], absent = []\<rparr>,
            m_vote_detail = None\<rparr>
   \<and> collected_detail (scan_item ''10'' [''10.1 A Resolution honoring a retiree.'', ''Withdrawn'']) = []
   \<and> detail_rule (scan_item ''10'' [''10.1 A Resolution honoring a retiree.'', ''Withdrawn''])
        \<lparr>m_item_number = ''10.1'', m_title = Some ''A Resolution honoring a retiree.'',
         m_file_number = None, m_result = Some ''withdrawn'', m_vote_tally = None,
         m_votes = Some \<lparr>aye = [], nay = [], abstain = [], absent = []\<rparr>,
         m_vote_detail = None\<rparr>
   \<and> minutes_step DEFAULT_MEMBERS ''10.1 A Resolution honoring a retiree.'' [''Withdrawn''] [] None
     = Inr ([], [\<lparr>m_item_number = ''10.1'', m_title = Some ''A Resolution honoring a retiree.'',
                   m_file_number = None, m_result = Some ''withdrawn'', m_vote_tally = None,
                   m_votes = Some \<lparr>aye = [], nay = [], abstain = [], absent = []\<rparr>,
                   m_vote_detail = None\<rparr>], None)"
  (is "?p = Some (Inr [?a, ?b, ?c]) \<and> _ \<and> ?bi = Inr _ \<and> ?cd = [] \<and> _ \<and> ?ms = Inr (_, _, _)")
proof -
  have e: "?p = Some (Inr [?a, ?b, ?c])"
    by code_simp
  have bi: "?bi = Inr ?b"
    by code_simp
  have cd: "?cd = []"
    by code_simp
  have ms: "?ms = Inr ([], [?b], None)"
    by code_simp
  note t = votes_field_rule [where roster = DEFAULT_MEMBERS and items = "[?a, ?b, ?c]"
      and lines = "[''3.2 An Ordinance.'', ''Tabled'', ''10.1 A Resolution honoring a retiree.'',
                    ''Withdrawn'', ''10.2 Another one.'',
                    ''Approved 7-0-2  Councilperson Singh and'', ''Councilperson Little: abstain'']"
      and num' = "''10.1''" and sp = "''10''"
      and il' = "[''10.1 A Resolution honoring a retiree.'', ''Withdrawn'']" and it' = ?b]
  from t e have 1: "votes_rule ?b"
    by simp
  from t bi have 2: "detail_rule (scan_item ''10'' [''10.1 A Resolution honoring a retiree.'', ''Withdrawn'']) ?b"
    by blast
  from e 1 bi cd 2 ms show ?thesis
    by (intro conjI)
qed

text \<open>The item 10.1 with the one line \<^verbatim>\<open>Withdrawn\<close> behind it: the result is withdrawn, no
  tally is found, and the record has a breakdown.\<close>

theorem withdrawn_item_has_votes:
  "parse_minutes DEFAULT_MEMBERS [''10.1 A Resolution honoring a retiree.'', ''Withdrawn'']
     = Some (Inr [\<lparr>m_item_number = ''10.1'', m_title = Some ''A Resolution honoring a retiree.'',
                    m_file_number = None, m_result = Some ''withdrawn'', m_vote_tally = None,
                    m_votes = Some \<lparr>aye = [], nay = [], abstain = [], absent = []\<rparr>,
                    m_vote_detail = None\<rparr>])"
  by code_simp

text \<open>
  The minutes scan tracks the open section and never compares an item number with it:
  after the header of section 3 the tracked section is 3, and the line of item 10.1
  read in that state adds the record of the item.
\<close>

theorem minutes_accepts_other_section:
  "minutes_step DEFAULT_MEMBERS ''3. ORDINANCES''
     [''10.1 A Resolution honoring a retiree.'', ''Approved 9-0''] [] None
     = Inr ([''10.1 A Resolution honoring a retiree.'', ''Approved 9-0''], [], Some 3)
   \<and> minutes_step DEFAULT_MEMBERS ''10.1 A Resolution honoring a retiree.'' [''Approved 9-0'']
       [] (Some 3)
     = Inr ([], [\<lparr>m_item_number = ''10.1'', m_title = Some ''A Resolution honoring a retiree.'',
                   m_file_number = None, m_result = Some ''approved'',
                   m_vote_tally = Some ''9-0'',
                   m_votes = Some \<lparr>aye = DEFAULT_MEMBERS, nay = [], abstain = [], absent = []\<rparr>,
                   m_vote_detail = None\<rparr>], Some 3)
   \<and> section_prefix ''10.1'' = ''10''"
  by code_simp

section \<open>Properties of the packet splitter\<close>

lemma split_items_append:
  "split_items dirs packet (xs @ ys) st =
     (case split_items dirs packet xs st of
        Inl e \<Rightarrow> Inl e
      | Inr st1 \<Rightarrow> split_items dirs packet ys st1)"
  by (induction xs arbitrary: st) (auto split: sum.splits)

lemma split_item_out_of_bounds:
  assumes "page_start item = Some pstart" and "page_end item = Some pend"
    and "pstart < 1 \<or> int (length packet) < pend"
  shows "split_item dirs packet (item, stype) st =
           Inr (st\<lparr>warnings := warnings st
                      @ [bounds_warning item pstart pend (int (length packet))]\<rparr>)"
  using assms by (auto simp: split_item_def Let_def)

text \<open>
  What the bounds check of the splitter does reject: a page range from \<open>pstart\<close> to
  \<open>pend\<close> with \<open>pstart < 1\<close> or with \<open>pend\<close> beyond the last page. For an item with such a
  range, wherever it stands in the batch, the splitter adds one warning that names the
  item and nothing else: the manifest entries, the saved files and the page count are
  those of the items before it, and the items after it are processed from that state.
\<close>

theorem out_of_bounds_item_skipped:
  assumes "page_start item = Some pstart" and "page_end item = Some pend"
    and "pstart < 1 \<or> int (length packet) < pend"
  shows "split_items dirs packet (before @ (item, stype) # rest) st =
           (case split_items dirs packet before st of
              Inl e \<Rightarrow> Inl e
            | Inr st1 \<Rightarrow>
                split_items dirs packet rest
                  \<lparr>manifest_entries = manifest_entries st1,
                   total_pages_split = total_pages_split st1,
                   warnings = warnings st1
                     @ [bounds_warning item pstart pend (int (length packet))],
                   saved = saved st1\<rparr>)"
proof (cases "split_items dirs packet before st")
  case (Inl e)
  then show ?thesis by (simp add: split_items_append)
next
  case (Inr st1)
  have "split_item dirs packet (item, stype) st1 =
          Inr \<lparr>manifest_entries = manifest_entries st1,
               total_pages_split = total_pages_split st1,
               warnings = warnings st1 @ [bounds_warning item pstart pend (int (length packet))],
               saved = saved st1\<rparr>"
    using split_item_out_of_bounds [OF assms, of dirs stype st1] by simp
  with Inr show ?thesis by (simp add: split_items_append)
qed

theorem out_of_bounds_item_skipped_witness:
  "split_items created_dirs [''page 1'', ''page 2 Res. 26-100'', ''page 3'', ''page 4'']
     ([(\<lparr>item_number = ''10.1'', title = ''A Resolution'', page_start = Some 2, page_end = Some 3,
         file_number = Some ''Res. 26-100'', item_type = ''resolution''\<rparr>, ''resolutions'')]
      @ (\<lparr>item_number = ''3.1'', title = ''An Ordinance'', page_start = Some 10, page_end = Some 13,
          file_number = Some ''Ord. 26-006'', item_type = ''ordinance''\<rparr>, ''ordinance_first_reading'')
      # [(\<lparr>item_number = ''10.2'', title = ''Another'', page_start = Some 4, page_end = Some 4,
           file_number = None, item_type = ''resolution''\<rparr>, ''resolutions'')])
     (agenda_saved 1)
   = Inr \<lparr>manifest_entries =
            [\<lparr>e_item_number = ''0.0'', e_title = ''Agenda'', e_item_type = ''agenda'',
              e_file_number = None, e_page_start = 1, e_page_end = 1, e_page_count = 1,
              e_output_file = ''agenda/00.00_agenda.pdf''\<rparr>,
             \<lparr>e_item_number = ''10.1'', e_title = ''A Resolution'', e_item_type = ''resolution'',
              e_file_number = Some ''Res. 26-100'', e_page_start = 2, e_page_end = 3,
              e_page_count = 2, e_output_file = ''resolutions/10.01_resolution_Res-26-100.pdf''\<rparr>,
             \<lparr>e_item_number = ''10.2'', e_title = ''Another'', e_item_type = ''resolution'',
              e_file_number = None, e_page_start = 4, e_page_end = 4,
              e_page_count = 1, e_output_file = ''resolutions/10.02_resolution.pdf''\<rparr>],
          total_pages_split = 4,
          warnings = [''WARNING: Item 3.1 pages 10-13 out of bounds (packet has 4 pages)''],
          saved = [(''agenda/00.00_agenda.pdf'', 0, 0),
                   (''resolutions/10.01_resolution_Res-26-100.pdf'', 1, 2),
                   (''resolutions/10.02_resolution.pdf'', 3, 3)]\<rparr>"
  (is "split_items ?dirs ?packet (?before @ (?item, ?sec) # ?rest) ?st = ?result")
proof -
  have a: "page_start ?item = Some 10" and b: "page_end ?item = Some 13"
    by simp_all
  have c: "(10::int) < 1 \<or> int (length ?packet) < 13"
    by simp
  have "(case split_items ?dirs ?packet ?before ?st of
           Inl e \<Rightarrow> Inl e
         | Inr st1 \<Rightarrow>
             split_items ?dirs ?packet ?rest
               \<lparr>manifest_entries = manifest_entries st1,
                total_pages_split = total_pages_split st1,
                warnings = warnings st1 @ [bounds_warning ?item 10 13 (int (length ?packet))],
                saved = saved st1\<rparr>) = ?result"
    by code_simp
  with out_of_bounds_item_skipped [OF a b c, of ?dirs ?before ?sec ?rest ?st]
  show ?thesis by (rule trans)
qed

text \<open>
  Claim C9. The claim is about every item whose page range falls outside the packet.
  The bounds check tests the first page against the lower bound and the last page
  against the upper bound only. The agenda line \<^verbatim>\<open>5 - 2 10.1 A\<close> gives the item 10.1 the
  pages 5 to 2; on a packet of four pages page 5 does not exist, yet the range passes
  the check: the splitter saves a file for the item, enters it in the manifest with a
  page count of -2, and records no warning.
\<close>

theorem inverted_range_passes_bounds_check:
  "parse_agenda [''10. RESOLUTIONS'', ''5 - 2 10.1 A'']
     = Some (Inr [\<lparr>sec_number = 10, sec_title = ''RESOLUTIONS'', sec_type = ''resolutions'',
                    sec_items = [\<lparr>item_number = ''10.1'', title = ''A'', page_start = Some 5,
                                  page_end = Some 2, file_number = None,
                                  item_type = ''resolution''\<rparr>]\<rparr>])
   \<and> split_packet [] [''page 1'', ''page 2'', ''page 3'', ''page 4''] (Some 1)
       [\<lparr>sec_number = 10, sec_title = ''RESOLUTIONS'', sec_type = ''resolutions'',
         sec_items = [\<lparr>item_number = ''10.1'', title = ''A'', page_start = Some 5,
                       page_end = Some 2, file_number = None, item_type = ''resolution''\<rparr>]\<rparr>]
     = Inr \<lparr>manifest_entries =
              [\<lparr>e_item_number = ''0.0'', e_title = ''Agenda'', e_item_type = ''agenda'',
                e_file_number = None, e_page_start = 1, e_page_end = 1, e_page_count = 1,
                e_output_file = ''agenda/00.00_agenda.pdf''\<rparr>,
               \<lparr>e_item_number = ''10.1'', e_title = ''A'', e_item_type = ''resolution'',
                e_file_number = None, e_page_start = 5, e_page_end = 2, e_page_count = - 2,
                e_output_file = ''resolutions/10.01_resolution.pdf''\<rparr>],
            total_pages_split = - 1,
            warnings = [],
            saved = [(''agenda/00.00_agenda.pdf'', 0, 0),
                     (''resolutions/10.01_resolution.pdf'', 4, 1)]\<rparr>"
  by code_simp

text \<open>An item of a section whose type has no directory of its own goes to the
  subdirectory \<^verbatim>\<open>other\<close>, which the splitter does not create: unless the directory is
  there already the save raises and the run ends.\<close>

lemma save_under_other_raises:
  "split_packet [] [''page 1'', ''page 2''] (Some 1)
     [\<lparr>sec_number = 5, sec_title = ''PETITIONS'', sec_type = ''petitions_communications'',
       sec_items = [\<lparr>item_number = ''5.1'', title = ''A letter'', page_start = Some 2,
                     page_end = Some 2, file_number = None, item_type = ''other''\<rparr>]\<rparr>]
     = Inl SaveError"
  by code_simp

section \<open>Termination of the scans\<close>

text \<open>
  Claim C10. An iteration of either scan that does not raise leaves fewer lines than
  it found: the cursor moves forward. Hence the loops return (a result or an exception)
  whenever the fuel is at least the number of lines left, and \<open>parse_agenda\<close> and
  \<open>parse_minutes\<close>, which give them the number of lines as fuel, return on every list of
  lines.
\<close>

theorem scans_terminate:
  "(agenda_step l after secs cur = Inr (r, secs', cur') \<longrightarrow> length r < length (l # after)) \<and>
   (minutes_step roster l after items cs = Inr (r', items', cs') \<longrightarrow> length r' < length (l # after)) \<and>
   (length ls \<le> fuel \<longrightarrow>
      (\<exists>res. agenda_loop fuel ls secs cur = Some res) \<and>
      (\<exists>res. minutes_loop fuel roster ls items cs = Some res)) \<and>
   (\<exists>res. parse_agenda lines = Some res) \<and>
   (\<exists>res. parse_minutes roster lines = Some res)"
proof (intro conjI impI)
  assume "agenda_step l after secs cur = Inr (r, secs', cur')"
  from agenda_step_length [OF this] show "length r < length (l # after)" by simp
next
  assume "minutes_step roster l after items cs = Inr (r', items', cs')"
  from minutes_step_length [OF this] show "length r' < length (l # after)" by simp
next
  assume "length ls \<le> fuel"
  then show "\<exists>res. agenda_loop fuel ls secs cur = Some res"
    by (rule agenda_loop_returns)
next
  assume "length ls \<le> fuel"
  then show "\<exists>res. minutes_loop fuel roster ls items cs = Some res"
    by (rule minutes_loop_returns)
next
  show "\<exists>res. parse_agenda lines = Some res"
    unfolding parse_agenda_def by (rule agenda_loop_returns) simp
next
  show "\<exists>res. parse_minutes roster lines = Some res"
    unfolding parse_minutes_def by (rule minutes_loop_returns) simp
qed

theorem scans_terminate_witness:
  "agenda_step ''10 - 13'' [''3.1'', ''An Ordinance amending the zoning map.'', ''Ord. 26-006'', ''4. X'']
     []
     (Some \<lparr>sec_number = 3, sec_title = ''ORDINANCES'', sec_type = ''other'', sec_items = []\<rparr>)
     = Inr ([''4. X''], [],
            Some \<lparr>sec_number = 3, sec_title = ''ORDINANCES'', sec_type = ''other'',
                  sec_items = [\<lparr>item_number = ''3.1'',
                                title = ''An Ordinance amending the zoning map.'',
                                page_start = Some 10, page_end = Some 13,
                                file_number = Some ''Ord. 26-006'', item_type = ''other''\<rparr>]\<rparr>)
   \<and> length [''4. X'']
       < length [''10 - 13'', ''3.1'', ''An Ordinance amending the zoning map.'', ''Ord. 26-006'',
                 ''4. X'']
   \<and> minutes_step [] ''5.1 A letter'' [''10.1 A Resolution.''] [] None
     = Inr ([''10.1 A Resolution.''], [], None)
   \<and> length [''10.1 A Resolution.''] < length [''5.1 A letter'', ''10.1 A Resolution.'']
   \<and> (\<exists>res. agenda_loop 2 [''5.1 A letter'', ''10.1 A Resolution.''] [] None = Some res)
   \<and> (\<exists>res. minutes_loop 2 [] [''5.1 A letter'', ''10.1 A Resolution.''] [] None = Some res)"
  (is "?as = Inr (?r, ?s', ?c') \<and> _ \<and> ?ms = Inr (?r', ?i', ?cs') \<and> _ \<and> _ \<and> _")
proof -
  have a: "?as = Inr (?r, ?s', ?c')"
    by code_simp
  have m: "?ms = Inr (?r', ?i', ?cs')"
    by code_simp
  have f: "length [''5.1 A letter'', ''10.1 A Resolution.''] \<le> (2::nat)"
    by simp
  note t = scans_terminate [where l = "''10 - 13''"
      and after = "[''3.1'', ''An Ordinance amending the zoning map.'', ''Ord. 26-006'', ''4. X'']"
      and secs = "[]"
      and cur = "Some \<lparr>sec_number = 3, sec_title = ''ORDINANCES'', sec_type = ''other'', sec_items = []\<rparr>"
      and r = ?r and secs' = ?s' and cur' = ?c']
  from t a have 1: "length ?r < length (''10 - 13'' # [''3.1'', ''An Ordinance amending the zoning map.'', ''Ord. 26-006'', ''4. X''])"
    by blast
  note u = scans_terminate [where roster = "[]" and l = "''5.1 A letter''"
      and after = "[''10.1 A Resolution.'']" and items = "[]" and cs = None
      and r' = ?r' and items' = ?i' and cs' = ?cs'
      and ls = "[''5.1 A letter'', ''10.1 A Resolution.'']" and fuel = 2
      and secs = "[]" and cur = None]
  from u m have 2: "length ?r' < length (''5.1 A letter'' # [''10.1 A Resolution.''])"
    by blast
  from u f have 3: "\<exists>res. agenda_loop 2 [''5.1 A letter'', ''10.1 A Resolution.''] [] None = Some res"
    and 4: "\<exists>res. minutes_loop 2 [] [''5.1 A letter'', ''10.1 A Resolution.''] [] None = Some res"
    by blast+
  from a m 1 2 3 4 show ?thesis
    by (intro conjI)
qed

end
